theory Spec2Isabelle
  imports Complex_Main
begin

section \<open>Hong Kong air-quality visualisation: model of \<open>week03/main_improved.py\<close>\<close>

text \<open>
  Python floats are modelled as exact reals, Python integers as \<open>int\<close>.  The pseudo-random
  sources (\<open>numpy.random\<close> and \<open>random\<close>) and the clock are inputs of the model: a source
  is the stream of the values its next calls return.  Exceptions are values of
  \<open>py_error\<close>, returned on the left of a sum.
\<close>

subsection \<open>Python and numpy primitives\<close>

datatype py_error = KeyError | IndexError | ZeroDivisionError

text \<open>\<open>int(r)\<close> on a float truncates towards zero.\<close>

definition py_int :: "real \<Rightarrow> int" where
  "py_int r = (if 0 \<le> r then \<lfloor>r\<rfloor> else \<lceil>r\<rceil>)"

text \<open>\<open>a % b\<close> on floats: the result has the sign of the divisor.\<close>

definition py_fmod :: "real \<Rightarrow> real \<Rightarrow> real" where
  "py_fmod a b = a - b * of_int \<lfloor>a / b\<rfloor>"

text \<open>\<open>xs[i]\<close> on a list or tuple: a negative index counts from the end.\<close>

definition py_getitem :: "'a list \<Rightarrow> int \<Rightarrow> py_error + 'a" where
  "py_getitem xs i =
     (if 0 \<le> i \<and> i < int (length xs) then Inr (xs ! nat i)
      else if - int (length xs) \<le> i \<and> i < 0 then Inr (xs ! nat (int (length xs) + i))
      else Inl IndexError)"

definition np_mean :: "real list \<Rightarrow> real" where
  "np_mean xs = sum_list xs / real (length xs)"

definition np_clip :: "real \<Rightarrow> real \<Rightarrow> real \<Rightarrow> real" where
  "np_clip v lo hi = min (max v lo) hi"

text \<open>A random source: the values returned by its next calls, in order.\<close>

type_synonym rng = "nat \<Rightarrow> real"

definition draws :: "nat \<Rightarrow> rng \<Rightarrow> real list \<times> rng" where
  "draws n g = (map g [0..<n], \<lambda>i. g (i + n))"

subsection \<open>Module constants\<close>

definition WIDTH :: int where "WIDTH = 1200"
definition HEIGHT :: int where "HEIGHT = 800"

definition DISTRICTS :: "string list" where
  "DISTRICTS = [''Central & Western'', ''Eastern'', ''Southern'', ''Wan Chai'', ''Kowloon City'',
                ''Kwun Tong'', ''Sham Shui Po'', ''Wong Tai Sin'', ''Yau Tsim Mong'']"

type_synonym rgb = "int \<times> int \<times> int"

text \<open>\<open>AQI_LEVELS\<close> with its range, colour and name (the description texts are display only).\<close>

definition AQI_LEVELS :: "((int \<times> int) \<times> rgb \<times> string) list" where
  "AQI_LEVELS =
     [((0, 50), (50, 205, 50), ''Good''),
      ((51, 100), (255, 255, 0), ''Moderate''),
      ((101, 150), (255, 165, 0), ''Unhealthy for Sensitive''),
      ((151, 200), (255, 69, 0), ''Unhealthy''),
      ((201, 300), (255, 0, 0), ''Very Unhealthy''),
      ((301, 500), (128, 0, 0), ''Hazardous'')]"

definition GRADIENT_COLORS :: "rgb list" where
  "GRADIENT_COLORS = map (\<lambda>level. fst (snd level)) AQI_LEVELS"

definition particle_good :: rgb where "particle_good = (50, 205, 50)"
definition particle_moderate :: rgb where "particle_moderate = (255, 255, 0)"
definition particle_unhealthy :: rgb where "particle_unhealthy = (255, 165, 0)"
definition particle_hazardous :: rgb where "particle_hazardous = (255, 0, 0)"

subsection \<open>Colour mapper\<close>

definition interpolate_color :: "rgb \<Rightarrow> rgb \<Rightarrow> real \<Rightarrow> rgb" where
  "interpolate_color color1 color2 factor =
     (case color1 of (r1, g1, b1) \<Rightarrow> case color2 of (r2, g2, b2) \<Rightarrow>
        (py_int (of_int r1 + of_int (r2 - r1) * factor),
         py_int (of_int g1 + of_int (g2 - g1) * factor),
         py_int (of_int b1 + of_int (b2 - b1) * factor)))"

definition get_color_for_value :: "real \<Rightarrow> real \<Rightarrow> real \<Rightarrow> py_error + rgb" where
  "get_color_for_value v min_val max_val =
     (if v \<le> min_val then py_getitem GRADIENT_COLORS 0
      else if v \<ge> max_val then py_getitem GRADIENT_COLORS (- 1)
      else
        let section_size = (max_val - min_val) / of_int (int (length GRADIENT_COLORS) - 1) in
        if section_size = 0 then Inl ZeroDivisionError
        else
          let section = py_int ((v - min_val) / section_size);
              factor = py_fmod (v - min_val) section_size / section_size
          in case py_getitem GRADIENT_COLORS section of
               Inl e \<Rightarrow> Inl e
             | Inr c1 \<Rightarrow>
                 (case py_getitem GRADIENT_COLORS (section + 1) of
                    Inl e \<Rightarrow> Inl e
                  | Inr c2 \<Rightarrow> Inr (interpolate_color c1 c2 factor)))"

subsection \<open>Particles\<close>

text \<open>
  The attributes of a \<open>Particle\<close>.  The constructor sets \<open>x, y, z, color, base_size, speed,
  angle\<close>; \<open>size\<close> is an attribute that only \<open>update_particles\<close> assigns, so it is absent
  (\<open>None\<close>) on a fresh particle.
\<close>

record Particle =
  pos_x :: real
  pos_y :: real
  pos_z :: real
  color :: rgb
  base_size :: int
  speed :: real
  angle :: real
  size_attr :: "int option"

text \<open>
  \<open>Particle.move\<close>: \<open>dtheta\<close> is the value of \<open>random.uniform(-0.1, 0.1)\<close> and \<open>ticks\<close> the
  value of \<open>pygame.time.get_ticks()\<close> at this call.
\<close>

definition move :: "Particle \<Rightarrow> real \<Rightarrow> real \<Rightarrow> Particle" where
  "move p dtheta ticks =
     (let a = angle p + dtheta;
          x1 = pos_x p + cos a * speed p;
          y1 = pos_y p + sin a * speed p;
          z1 = 50 * sin (ticks * 0.001 + a);
          x2 = (if x1 < 0 then of_int WIDTH else if x1 > of_int WIDTH then 0 else x1);
          y2 = (if y1 < 0 then of_int HEIGHT else if y1 > of_int HEIGHT then 0 else y1)
      in p\<lparr>angle := a, pos_x := x2, pos_y := y2, pos_z := z1\<rparr>)"

text \<open>What \<open>Particle.draw\<close> passes to the renderer: the radius and the shaded colour.\<close>

definition draw_size :: "Particle \<Rightarrow> int" where
  "draw_size p =
     (let depth_factor = (pos_z p + 50) / 100
      in py_int (of_int (base_size p) * (0.5 + depth_factor * 0.5)))"

definition draw_color :: "Particle \<Rightarrow> rgb" where
  "draw_color p =
     (let depth_factor = (pos_z p + 50) / 100
      in case color p of (r, g, b) \<Rightarrow>
           (py_int (of_int r * (0.7 + depth_factor * 0.3)),
            py_int (of_int g * (0.7 + depth_factor * 0.3)),
            py_int (of_int b * (0.7 + depth_factor * 0.3))))"

definition Particle_init :: "real \<Rightarrow> real \<Rightarrow> rgb \<Rightarrow> int \<Rightarrow> real \<Rightarrow> rng \<Rightarrow> Particle \<times> rng" where
  \<comment> \<open>\<open>Particle.__init__\<close>: \<open>z\<close> and \<open>angle\<close> are the next two values of \<open>random.uniform\<close>.\<close>
  "Particle_init x0 y0 c sz sp g =
     (case draws 2 g of (us, g') \<Rightarrow>
        (\<lparr>pos_x = x0, pos_y = y0, pos_z = us ! 0, color = c, base_size = sz, speed = sp,
          angle = us ! 1, size_attr = None\<rparr>, g'))"

subsection \<open>Dataset generator\<close>

text \<open>The hard-coded monthly pattern of the period a year falls into.\<close>

definition base_pattern :: "int \<Rightarrow> real list" where
  "base_pattern yr =
     (if yr \<ge> 1993 \<and> yr \<le> 2000 then [85, 95, 80, 75, 70, 65, 90, 100, 85, 80, 75, 70]
      else if yr > 2000 \<and> yr \<le> 2010 then [70, 75, 65, 60, 55, 50, 80, 85, 70, 65, 60, 55]
      else if yr > 2010 \<and> yr \<le> 2015 then [55, 60, 50, 45, 40, 35, 65, 70, 55, 50, 45, 40]
      else if yr > 2015 \<and> yr \<le> 2020 then [40, 45, 35, 30, 25, 20, 50, 55, 40, 35, 30, 25]
      else [35, 40, 30, 25, 20, 15, 45, 50, 35, 30, 25, 20])"

text \<open>
  The labels of \<open>self.historical_events\<close> are non-ASCII string literals; each is represented
  by its position in the source table.
\<close>

definition historical_events_table :: "int \<rightharpoonup> nat" where
  "historical_events_table =
     [1995 \<mapsto> 0, 2000 \<mapsto> 1, 2005 \<mapsto> 2, 2010 \<mapsto> 3, 2015 \<mapsto> 4, 2020 \<mapsto> 5]"

text \<open>
  The body of the \<open>for year in range(1993, 2024)\<close> loop of \<open>generate_historical_data\<close>:
  twelve values of \<open>np.random.normal(0, 5, 12)\<close> are added to the pattern and clipped.
\<close>

fun historical_loop :: "int list \<Rightarrow> (int \<rightharpoonup> real list) \<Rightarrow> rng \<Rightarrow> (int \<rightharpoonup> real list) \<times> rng" where
  "historical_loop [] data g = (data, g)"
| "historical_loop (yr # yrs) data g =
     (case draws 12 g of (noise, g') \<Rightarrow>
        historical_loop yrs
          (data(yr \<mapsto> map (\<lambda>v. np_clip v 0 150) (map2 (+) (base_pattern yr) noise))) g')"

text \<open>
  \<open>generate_historical_data\<close> returns the data, the table it assigns to
  \<open>self.historical_events\<close>, and the advanced random source.
\<close>

definition generate_historical_data :: "rng \<Rightarrow> (int \<rightharpoonup> real list) \<times> (int \<rightharpoonup> nat) \<times> rng" where
  "generate_historical_data g =
     (case historical_loop [1993..2023] Map.empty g of
        (data, g') \<Rightarrow> (data, historical_events_table, g'))"

text \<open>The inner \<open>for year\<close> loop of \<open>generate_district_data\<close>, for one district.\<close>

fun district_year_loop ::
  "int list \<Rightarrow> (int \<rightharpoonup> real list) \<Rightarrow> (int \<rightharpoonup> real list) \<Rightarrow> rng \<Rightarrow> py_error + (int \<rightharpoonup> real list) \<times> rng" where
  "district_year_loop [] base_data row g = Inr (row, g)"
| "district_year_loop (yr # yrs) base_data row g =
     (case draws 1 g of (variation, g') \<Rightarrow>
        (case base_data yr of
           None \<Rightarrow> Inl KeyError
         | Some b \<Rightarrow>
             district_year_loop yrs base_data
               (row(yr \<mapsto> map (\<lambda>v. np_clip v 0 150) (map (\<lambda>v. v + variation ! 0) b))) g'))"

text \<open>The outer \<open>for district in DISTRICTS\<close> loop.\<close>

fun district_loop ::
  "string list \<Rightarrow> (int \<rightharpoonup> real list) \<Rightarrow> (string \<rightharpoonup> (int \<rightharpoonup> real list)) \<Rightarrow> rng
     \<Rightarrow> py_error + (string \<rightharpoonup> (int \<rightharpoonup> real list)) \<times> rng" where
  "district_loop [] base_data dd g = Inr (dd, g)"
| "district_loop (d # ds) base_data dd g =
     (case dd d of
        None \<Rightarrow> Inl KeyError
      | Some row \<Rightarrow>
          (case district_year_loop [1993..2023] base_data row g of
             Inl e \<Rightarrow> Inl e
           | Inr (row', g') \<Rightarrow> district_loop ds base_data (dd(d \<mapsto> row')) g'))"

definition generate_district_data ::
  "rng \<Rightarrow> py_error + (string \<rightharpoonup> (int \<rightharpoonup> real list)) \<times> (int \<rightharpoonup> nat) \<times> rng" where
  "generate_district_data g =
     (let district_data = map_of (map (\<lambda>d. (d, Map.empty)) DISTRICTS)
      in case generate_historical_data g of
           (base_data, events, g1) \<Rightarrow>
             (case district_loop DISTRICTS base_data district_data g1 of
                Inl e \<Rightarrow> Inl e
              | Inr (dd, g2) \<Rightarrow> Inr (dd, events, g2)))"

subsection \<open>The visualisation object\<close>

definition get_particle_properties :: "real \<Rightarrow> rgb \<times> int \<times> real" where
  "get_particle_properties aqi =
     (if aqi < 50 then (particle_good, 3, 1)
      else if aqi < 100 then (particle_moderate, 4, 1.5)
      else if aqi < 150 then (particle_unhealthy, 5, 2)
      else (particle_hazardous, 6, 2.5))"

record AirQualityViz =
  particles :: "Particle list"
  year :: real
  target_year :: int
  year_transition_speed :: real
  aqi_data :: "int \<rightharpoonup> real list"
  district_data :: "string \<rightharpoonup> (int \<rightharpoonup> real list)"
  historical_events :: "int \<rightharpoonup> nat"
  selected_district :: "string option"

text \<open>
  The \<open>for _ in range(num_particles)\<close> loop of \<open>initialize_particles\<close>; the two
  \<open>random.randint\<close> values and the two \<open>random.uniform\<close> values of the constructor are
  taken from the source \<open>g\<close> in call order.
\<close>

fun particles_loop :: "nat \<Rightarrow> rgb \<Rightarrow> int \<Rightarrow> real \<Rightarrow> Particle list \<Rightarrow> rng \<Rightarrow> Particle list \<times> rng" where
  "particles_loop 0 c sz sp ps g = (ps, g)"
| "particles_loop (Suc n) c sz sp ps g =
     (case draws 2 g of (xy, g1) \<Rightarrow>
        (case Particle_init (xy ! 0) (xy ! 1) c sz sp g1 of
           (p, g2) \<Rightarrow> particles_loop n c sz sp (ps @ [p]) g2))"

text \<open>A dictionary with integer keys read at a float key: only an integral float hits.\<close>

definition lookup_year :: "(int \<rightharpoonup> real list) \<Rightarrow> real \<Rightarrow> py_error + real list" where
  "lookup_year data k =
     (if k = of_int (py_int k)
      then (case data (py_int k) of None \<Rightarrow> Inl KeyError | Some s \<Rightarrow> Inr s)
      else Inl KeyError)"

definition initialize_particles :: "AirQualityViz \<Rightarrow> rng \<Rightarrow> py_error + AirQualityViz \<times> rng" where
  "initialize_particles self g =
     (case lookup_year (aqi_data self) (year self) of
        Inl e \<Rightarrow> Inl e
      | Inr s \<Rightarrow>
          (case get_particle_properties (np_mean s) of
             (c, sz, sp) \<Rightarrow>
               (case particles_loop 200 c sz sp (particles self) g of
                  (ps, g') \<Rightarrow> Inr (self\<lparr>particles := ps\<rparr>, g'))))"

text \<open>
  \<open>AirQualityViz.__init__\<close>, from the numpy source \<open>np_g\<close> and the \<open>random\<close> source
  \<open>py_g\<close>.  The second \<open>generate_historical_data\<close> call, inside
  \<open>generate_district_data\<close>, draws fresh noise for the districts' base data.
\<close>

definition AirQualityViz_init :: "rng \<Rightarrow> rng \<Rightarrow> py_error + AirQualityViz \<times> rng \<times> rng" where
  "AirQualityViz_init np_g py_g =
     (case generate_historical_data np_g of
        (data, events1, g1) \<Rightarrow>
          (case generate_district_data g1 of
             Inl e \<Rightarrow> Inl e
           | Inr (dd, events2, g2) \<Rightarrow>
               (case initialize_particles
                       \<lparr>particles = [], year = 1993, target_year = 1993,
                        year_transition_speed = 0.05, aqi_data = data, district_data = dd,
                        historical_events = events2, selected_district = None\<rparr> py_g of
                  Inl e \<Rightarrow> Inl e
                | Inr (self, py_g') \<Rightarrow> Inr (self, g2, py_g'))))"

text \<open>Lines 313-320 of \<open>update_particles\<close>: the overall AQI at a fractional year.\<close>

definition update_particles_aqi :: "(int \<rightharpoonup> real list) \<Rightarrow> real \<Rightarrow> py_error + real" where
  "update_particles_aqi data yr =
     (let current_year_int = py_int yr;
          next_year_int = min 2023 (current_year_int + 1);
          year_fraction = yr - of_int current_year_int
      in case data current_year_int of
           None \<Rightarrow> Inl KeyError
         | Some s0 \<Rightarrow>
             (let current_aqi = np_mean s0
              in if year_fraction > 0 \<and> next_year_int \<in> dom data
                 then (let next_aqi = np_mean (the (data next_year_int))
                       in Inr (current_aqi + (next_aqi - current_aqi) * year_fraction))
                 else Inr current_aqi))"

text \<open>
  \<open>update_particles\<close>: \<open>dtheta i\<close> and \<open>ticks i\<close> are the random turn and the clock value
  in the \<open>move\<close> call of the \<open>i\<close>-th particle.
\<close>

definition update_particles ::
  "AirQualityViz \<Rightarrow> (nat \<Rightarrow> real) \<Rightarrow> (nat \<Rightarrow> real) \<Rightarrow> py_error + AirQualityViz" where
  "update_particles self dtheta ticks =
     (let year1 = (if \<bar>year self - of_int (target_year self)\<bar> > 0.01
                   then year self + (of_int (target_year self) - year self) * year_transition_speed self
                   else of_int (target_year self))
      in case update_particles_aqi (aqi_data self) year1 of
           Inl e \<Rightarrow> Inl e
         | Inr current_aqi \<Rightarrow>
             (case get_particle_properties current_aqi of
                (c, sz, sp) \<Rightarrow>
                  Inr (self\<lparr>year := year1,
                            particles :=
                              map (\<lambda>(i, p). move (p\<lparr>color := c, size_attr := Some sz, speed := sp\<rparr>)
                                               (dtheta i) (ticks i))
                                  (enumerate 0 (particles self))\<rparr>)))"

subsection \<open>Drawing: the values handed to the renderer\<close>

text \<open>Lines 344-351 of \<open>draw_district_visualization\<close>: the AQI of one district.\<close>

definition district_aqi ::
  "(string \<rightharpoonup> (int \<rightharpoonup> real list)) \<Rightarrow> string \<Rightarrow> real \<Rightarrow> py_error + real" where
  "district_aqi dd district yr =
     (let current_year_int = py_int yr;
          next_year_int = min 2023 (current_year_int + 1);
          year_fraction = yr - of_int current_year_int
      in case dd district of
           None \<Rightarrow> Inl KeyError
         | Some row \<Rightarrow>
             (case row current_year_int of
                None \<Rightarrow> Inl KeyError
              | Some s0 \<Rightarrow>
                  (let aqi = np_mean s0
                   in if year_fraction > 0 \<and> next_year_int \<in> dom row
                      then (let next_aqi = np_mean (the (row next_year_int))
                            in Inr (aqi + (next_aqi - aqi) * year_fraction))
                      else Inr aqi)))"

text \<open>Lines 449-456 of \<open>draw\<close>: the displayed overall AQI.\<close>

definition draw_overall_aqi :: "(int \<rightharpoonup> real list) \<Rightarrow> real \<Rightarrow> py_error + real" where
  "draw_overall_aqi data yr =
     (let current_year_int = py_int yr;
          next_year_int = min 2023 (current_year_int + 1);
          year_fraction = yr - of_int current_year_int
      in case data current_year_int of
           None \<Rightarrow> Inl KeyError
         | Some s0 \<Rightarrow>
             (let overall_aqi = np_mean s0
              in if year_fraction > 0 \<and> next_year_int \<in> dom data
                 then (let next_aqi = np_mean (the (data next_year_int))
                       in Inr (overall_aqi + (next_aqi - overall_aqi) * year_fraction))
                 else Inr overall_aqi))"

text \<open>
  The district cells in drawing order: name, AQI, fill colour, and whether the cell gets
  the highlight border.
\<close>

fun district_cells :: "AirQualityViz \<Rightarrow> string list \<Rightarrow> py_error + (string \<times> real \<times> rgb \<times> bool) list" where
  "district_cells self [] = Inr []"
| "district_cells self (d # ds) =
     (case district_aqi (district_data self) d (year self) of
        Inl e \<Rightarrow> Inl e
      | Inr aqi \<Rightarrow>
          (case get_color_for_value aqi 0 150 of
             Inl e \<Rightarrow> Inl e
           | Inr c \<Rightarrow>
               (case district_cells self ds of
                  Inl e \<Rightarrow> Inl e
                | Inr cells \<Rightarrow> Inr ((d, aqi, c, Some d = selected_district self) # cells))))"

text \<open>
  The data line of \<open>Graph.draw\<close> for the timeline graph \<open>Graph(150, HEIGHT - 200, WIDTH - 300, 150)\<close>
  and the year range 1993 to 2023.
\<close>

fun graph_points :: "(int \<rightharpoonup> real list) \<Rightarrow> int list \<Rightarrow> py_error + (int \<times> real) list" where
  "graph_points data [] = Inr []"
| "graph_points data (yr # yrs) =
     (case data yr of
        None \<Rightarrow> Inl KeyError
      | Some s \<Rightarrow>
          (case graph_points data yrs of
             Inl e \<Rightarrow> Inl e
           | Inr pts \<Rightarrow>
               Inr ((150 + (yr - 1993) * (WIDTH - 300) div (2023 - 1993),
                     of_int (HEIGHT - 200 + 150) - (np_mean s / 150) * 150) # pts)))"

record screen_frame =
  cells :: "(string \<times> real \<times> rgb \<times> bool) list"
  timeline :: "(int \<times> real) list"
  discs :: "(int \<times> rgb) list"
  year_text :: int
  aqi_text :: int

definition draw :: "AirQualityViz \<Rightarrow> py_error + screen_frame" where
  "draw self =
     (case district_cells self DISTRICTS of
        Inl e \<Rightarrow> Inl e
      | Inr cs \<Rightarrow>
          (case graph_points (aqi_data self) [1993..2023] of
             Inl e \<Rightarrow> Inl e
           | Inr pts \<Rightarrow>
               (case draw_overall_aqi (aqi_data self) (year self) of
                  Inl e \<Rightarrow> Inl e
                | Inr overall_aqi \<Rightarrow>
                    Inr \<lparr>cells = cs, timeline = pts,
                         discs = map (\<lambda>p. (draw_size p, draw_color p)) (sort_key pos_z (particles self)),
                         year_text = py_int (year self), aqi_text = py_int overall_aqi\<rparr>)))"

subsection \<open>Events and the frame loop\<close>

datatype key = K_RIGHT | K_LEFT | K_SPACE | K_OTHER

datatype event = QUIT | KEYDOWN key | MOUSEBUTTONDOWN int int | OTHER_EVENT

record main_state =
  viz :: AirQualityViz
  running :: bool
  frame_count :: int

text \<open>One iteration of \<open>for event in pygame.event.get()\<close>.\<close>

fun handle_event :: "main_state \<Rightarrow> event \<Rightarrow> main_state" where
  "handle_event s QUIT = s\<lparr>running := False\<rparr>"
| "handle_event s (KEYDOWN K_RIGHT) =
     s\<lparr>viz := (viz s)\<lparr>target_year := min 2023 (target_year (viz s) + 1)\<rparr>\<rparr>"
| "handle_event s (KEYDOWN K_LEFT) =
     s\<lparr>viz := (viz s)\<lparr>target_year := max 1993 (target_year (viz s) - 1)\<rparr>\<rparr>"
| "handle_event s (KEYDOWN K_SPACE) = s\<lparr>frame_count := 0\<rparr>"
| "handle_event s (KEYDOWN K_OTHER) = s"
| "handle_event s (MOUSEBUTTONDOWN mouse_x mouse_y) =
     (let margin = 50;
          grid_size = 3;
          cell_width = (WIDTH - 2 * margin) div grid_size;
          cell_height = 200
      in if 100 \<le> mouse_y \<and> mouse_y \<le> 700
         then (let row = (mouse_y - 100) div cell_height;
                   col = (mouse_x - margin) div cell_width;
                   index = row * grid_size + col
               in if 0 \<le> index \<and> index < int (length DISTRICTS)
                  then s\<lparr>viz := (viz s)\<lparr>selected_district := Some (DISTRICTS ! nat index)\<rparr>\<rparr>
                  else s)
         else s)"
| "handle_event s OTHER_EVENT = s"

text \<open>What one frame receives from outside: the queued events, the random turns, the clock.\<close>

record frame_input =
  in_events :: "event list"
  in_dtheta :: "nat \<Rightarrow> real"
  in_ticks :: "nat \<Rightarrow> real"

text \<open>The body of \<open>while running\<close>.\<close>

definition frame :: "main_state \<Rightarrow> frame_input \<Rightarrow> py_error + main_state" where
  "frame s inp =
     (let s1 = foldl handle_event s (in_events inp)
      in case update_particles (viz s1) (in_dtheta inp) (in_ticks inp) of
           Inl e \<Rightarrow> Inl e
         | Inr v \<Rightarrow>
             (case draw v of
                Inl e \<Rightarrow> Inl e
              | Inr scr \<Rightarrow>
                  (let fc = frame_count s1 + 1
                   in if fc \<ge> 300
                      then Inr (s1\<lparr>viz := v\<lparr>target_year :=
                                      (if target_year v < 2023 then target_year v + 1 else 1993)\<rparr>,
                                    frame_count := 0\<rparr>)
                      else Inr (s1\<lparr>viz := v, frame_count := fc\<rparr>))))"

text \<open>
  The loop of \<open>main\<close> over the inputs of the successive frames; it stops when \<open>running\<close> is
  false at the loop test, and an exception ends it.
\<close>

fun main_loop :: "main_state \<Rightarrow> frame_input list \<Rightarrow> py_error + main_state" where
  "main_loop s [] = Inr s"
| "main_loop s (inp # inps) =
     (if \<not> running s then Inr s
      else (case frame s inp of Inl e \<Rightarrow> Inl e | Inr s' \<Rightarrow> main_loop s' inps))"

subsection \<open>Reference definitions from the specification, and auxiliary definitions\<close>

text \<open>Linear interpolation between \<open>a\<close> and \<open>b\<close> at offset \<open>t\<close>, as the specification words it.\<close>

definition lerp :: "real \<Rightarrow> real \<Rightarrow> real \<Rightarrow> real" where
  "lerp a b t = a + (b - a) * t"

text \<open>A yearly sample within the clamp range: 12 values, each between 0 and 150.\<close>

definition sample_ok :: "real list \<Rightarrow> bool" where
  "sample_ok s \<longleftrightarrow> length s = 12 \<and> (\<forall>v \<in> set s. 0 \<le> v \<and> v \<le> 150)"

text \<open>The pattern of a year plus twelve noise values, clipped.\<close>

definition clipped_row :: "int \<Rightarrow> (nat \<Rightarrow> real) \<Rightarrow> real list" where
  "clipped_row yr noise = map (\<lambda>i. np_clip (base_pattern yr ! i + noise i) 0 150) [0..<12]"

text \<open>The row written for the district at position \<open>j\<close>.\<close>

definition district_row :: "(int \<rightharpoonup> real list) \<Rightarrow> (nat \<Rightarrow> real) \<Rightarrow> (int \<rightharpoonup> real list)" where
  "district_row base_data variation yr =
     (if 1993 \<le> yr \<and> yr \<le> 2023
      then map_option (map (\<lambda>v. np_clip (v + variation (nat (yr - 1993))) 0 150)) (base_data yr)
      else None)"

text \<open>Two concrete random sources.\<close>

definition const_noise :: "real \<Rightarrow> rng" where
  "const_noise c = (\<lambda>i. c)"

definition step_noise :: rng where
  "step_noise = (\<lambda>i. if i < 372 then 0 else 1)"

text \<open>
  The interpolated-value rule in the specification's words: \<open>y0 = floor(current_year)\<close>,
  \<open>y1 = min(2023, y0 + 1)\<close>, \<open>frac = current_year - y0\<close>, \<open>value = mean(sample[y0])\<close>, and
  if \<open>frac > 0\<close> and \<open>y1\<close> has data, \<open>value += (mean(sample[y1]) - value) * frac\<close>.
\<close>

definition interpolated_value :: "(int \<rightharpoonup> real list) \<Rightarrow> real \<Rightarrow> real" where
  "interpolated_value sample current_year =
     (let y0 = \<lfloor>current_year\<rfloor>;
          y1 = min 2023 (y0 + 1);
          frac = current_year - of_int y0;
          v = np_mean (the (sample y0))
      in if frac > 0 \<and> y1 \<in> dom sample
         then v + (np_mean (the (sample y1)) - v) * frac
         else v)"

text \<open>
  The prologue of \<open>main\<close>: the visualisation object is built, \<open>running\<close> is true and the
  frame counter is 0.
\<close>

definition main_init :: "rng \<Rightarrow> rng \<Rightarrow> py_error + main_state \<times> rng \<times> rng" where
  "main_init np_g py_g =
     (case AirQualityViz_init np_g py_g of
        Inl e \<Rightarrow> Inl e
      | Inr (v, g, pg) \<Rightarrow> Inr (\<lparr>viz = v, running = True, frame_count = 0\<rparr>, g, pg))"

text \<open>
  The invariant of the visualisation object: both years lie in the dataset's range, the
  transition speed is the constant 0.05, and the datasets have a sample for every year
  from 1993 to 2023 (for every district).
\<close>

definition viz_inv :: "AirQualityViz \<Rightarrow> bool" where
  "viz_inv self \<longleftrightarrow>
     1993 \<le> year self \<and> year self \<le> 2023
     \<and> 1993 \<le> target_year self \<and> target_year self \<le> 2023
     \<and> year_transition_speed self = 0.05
     \<and> (\<forall>yr \<in> {1993..2023}. \<exists>s. aqi_data self yr = Some s)
     \<and> (\<forall>d \<in> set DISTRICTS. \<exists>row. district_data self d = Some row
            \<and> (\<forall>yr \<in> {1993..2023}. \<exists>s. row yr = Some s))"

definition state_inv :: "main_state \<Rightarrow> bool" where
  "state_inv s \<longleftrightarrow> viz_inv (viz s) \<and> 0 \<le> frame_count s \<and> frame_count s < 300"

text \<open>Lines 306-309 of \<open>update_particles\<close>: the year after one tick.\<close>

definition next_year :: "AirQualityViz \<Rightarrow> real" where
  "next_year self =
     (if \<bar>year self - of_int (target_year self)\<bar> > 0.01
      then year self + (of_int (target_year self) - year self) * year_transition_speed self
      else of_int (target_year self))"

text \<open>A frame in which nothing happens outside: no event, no turn, clock at 0.\<close>

definition idle_input :: frame_input where
  "idle_input = \<lparr>in_events = [], in_dtheta = (\<lambda>i. 0), in_ticks = (\<lambda>i. 0)\<rparr>"

text \<open>The automatic advance at the end of a frame.\<close>

definition advance :: "int \<Rightarrow> int" where
  "advance t = (if t < 2023 then t + 1 else 1993)"

text \<open>The state in which \<open>main\<close> enters its loop when every random value is 0.\<close>

definition start_state :: main_state where
  "start_state = fst (projr (main_init (const_noise 0) (const_noise 0)))"

text \<open>A particle on the right edge heading right, and one on the left edge heading left.\<close>

definition right_edge_particle :: Particle where
  "right_edge_particle =
     \<lparr>pos_x = 1200, pos_y = 400, pos_z = 0, color = particle_moderate, base_size = 4,
      speed = 1, angle = 0, size_attr = None\<rparr>"

definition left_edge_particle :: Particle where
  "left_edge_particle =
     \<lparr>pos_x = 0, pos_y = 400, pos_z = 0, color = particle_moderate, base_size = 4,
      speed = 1, angle = pi, size_attr = None\<rparr>"

text \<open>
  \<open>n\<close> successive calls of \<open>update_particles\<close> with no other change of the object;
  \<open>inp k\<close> gives the random turns and the clock values of call \<open>k\<close>.
\<close>

fun run_ticks ::
  "nat \<Rightarrow> AirQualityViz \<Rightarrow> (nat \<Rightarrow> (nat \<Rightarrow> real) \<times> (nat \<Rightarrow> real)) \<Rightarrow> py_error + AirQualityViz" where
  "run_ticks 0 self inp = Inr self"
| "run_ticks (Suc n) self inp =
     (case run_ticks n self inp of
        Inl e \<Rightarrow> Inl e
      | Inr v \<Rightarrow> update_particles v (fst (inp n)) (snd (inp n)))"

text \<open>Ticks without random turns, the clock at 0.\<close>

definition idle_ticks :: "nat \<Rightarrow> (nat \<Rightarrow> real) \<times> (nat \<Rightarrow> real)" where
  "idle_ticks k = (\<lambda>i. 0, \<lambda>i. 0)"

text \<open>The object after the right key was pressed 7 times at the start: the target is 2000.\<close>

definition viz_target_2000 :: AirQualityViz where
  "viz_target_2000 =
     viz (foldl handle_event start_state (replicate 7 (KEYDOWN K_RIGHT)))"

text \<open>The object after the right key was pressed 30 times at the start: the target is 2023.\<close>

definition viz_target_2023 :: AirQualityViz where
  "viz_target_2023 =
     viz (foldl handle_event start_state (replicate 30 (KEYDOWN K_RIGHT)))"

text \<open>A key press of any key.\<close>

definition is_key :: "event \<Rightarrow> bool" where
  "is_key e = (case e of KEYDOWN k \<Rightarrow> True | _ \<Rightarrow> False)"

text \<open>A frame whose only event is a press of the space key.\<close>

definition space_input :: frame_input where
  "space_input = \<lparr>in_events = [KEYDOWN K_SPACE], in_dtheta = (\<lambda>i. 0), in_ticks = (\<lambda>i. 0)\<rparr>"

text \<open>A frame whose only event is a pointer press inside the district grid.\<close>

definition click_input :: frame_input where
  "click_input = \<lparr>in_events = [MOUSEBUTTONDOWN 420 350], in_dtheta = (\<lambda>i. 0), in_ticks = (\<lambda>i. 0)\<rparr>"

text \<open>What is observed of the loop's result: \<open>target_year\<close> and the frame counter.\<close>

definition observe :: "py_error + main_state \<Rightarrow> py_error + int \<times> int" where
  "observe r = (case r of Inl e \<Rightarrow> Inl e | Inr s \<Rightarrow> Inr (target_year (viz s), frame_count s))"

section \<open>Verification\<close>

subsection \<open>Colour mapper\<close>
lemma py_getitem_nonneg:
  "0 \<le> i \<Longrightarrow> i < int (length xs) \<Longrightarrow> py_getitem xs i = Inr (xs ! nat i)"
  by (simp add: py_getitem_def)

lemma length_GRADIENT_COLORS: "length GRADIENT_COLORS = 6"
  by (simp add: GRADIENT_COLORS_def AQI_LEVELS_def)

lemma GRADIENT_COLORS_eq:
  "GRADIENT_COLORS = [(50, 205, 50), (255, 255, 0), (255, 165, 0), (255, 69, 0), (255, 0, 0), (128, 0, 0)]"
  by (simp add: GRADIENT_COLORS_def AQI_LEVELS_def)

lemma get_color_low: "v \<le> 0 \<Longrightarrow> get_color_for_value v 0 150 = Inr (hd GRADIENT_COLORS)"
  by (simp add: get_color_for_value_def py_getitem_def GRADIENT_COLORS_eq)

lemma get_color_high: "v \<ge> 150 \<Longrightarrow> get_color_for_value v 0 150 = Inr (last GRADIENT_COLORS)"
  by (simp add: get_color_for_value_def py_getitem_def GRADIENT_COLORS_eq)

lemma section_bounds:
  assumes "0 < v" "v < 150"
  shows "0 \<le> \<lfloor>v / 30\<rfloor>" "\<lfloor>v / 30\<rfloor> < 5" "py_int (v / 30) = \<lfloor>v / 30\<rfloor>"
proof -
  from assms show "0 \<le> \<lfloor>v / 30\<rfloor>" by simp
  from assms have "v / 30 < 5" by simp
  then show "\<lfloor>v / 30\<rfloor> < 5" by (simp add: floor_less_iff)
  from assms show "py_int (v / 30) = \<lfloor>v / 30\<rfloor>" by (simp add: py_int_def)
qed

lemma get_color_mid:
  assumes "0 < v" "v < 150"
  shows "get_color_for_value v 0 150 =
           Inr (interpolate_color (GRADIENT_COLORS ! nat \<lfloor>v / 30\<rfloor>)
                                  (GRADIENT_COLORS ! nat (\<lfloor>v / 30\<rfloor> + 1))
                                  ((v - 30 * of_int \<lfloor>v / 30\<rfloor>) / 30))"
proof -
  note b = section_bounds[OF assms]
  have g1: "py_getitem GRADIENT_COLORS \<lfloor>v / 30\<rfloor> = Inr (GRADIENT_COLORS ! nat \<lfloor>v / 30\<rfloor>)"
    using b by (intro py_getitem_nonneg) (simp_all add: length_GRADIENT_COLORS)
  have g2: "py_getitem GRADIENT_COLORS (\<lfloor>v / 30\<rfloor> + 1) = Inr (GRADIENT_COLORS ! nat (\<lfloor>v / 30\<rfloor> + 1))"
    using b by (intro py_getitem_nonneg) (simp_all add: length_GRADIENT_COLORS)
  show ?thesis
    using assms b(3) g1 g2
    by (simp add: get_color_for_value_def length_GRADIENT_COLORS py_fmod_def Let_def)
qed


lemma py_int_of_int: "py_int (of_int n) = n"
  by (simp add: py_int_def)

lemma py_int_close: "\<bar>of_int (py_int r) - r\<bar> < 1"
  unfolding py_int_def by (simp; linarith)

lemma interpolate_color_0: "interpolate_color c1 c2 0 = c1"
  by (cases c1; cases c2) (simp add: interpolate_color_def py_int_of_int)

lemma interpolate_color_lerp:
  "interpolate_color (r1, g1, b1) (r2, g2, b2) f =
     (py_int (lerp (of_int r1) (of_int r2) f),
      py_int (lerp (of_int g1) (of_int g2) f),
      py_int (lerp (of_int b1) (of_int b2) f))"
  by (simp add: interpolate_color_def lerp_def)

lemma get_color_boundary:
  assumes "k \<in> {1, 2, 3, 4}"
  shows "get_color_for_value (30 * of_int k) 0 150 = Inr (GRADIENT_COLORS ! nat k)"
proof -
  have "0 < (30 * of_int k :: real)" "(30 * of_int k :: real) < 150"
    using assms by auto
  from get_color_mid[OF this] show ?thesis
    by (simp add: interpolate_color_0)
qed

text \<open>
  C4.  With the default range 0 to 150, \<open>get_color_for_value\<close> returns the first gradient stop
  for \<open>v \<le> 0\<close> and the last for \<open>v \<ge> 150\<close>.  For \<open>0 < v < 150\<close> the section is
  \<open>k = \<lfloor>v / 30\<rfloor>\<close>, one of five sections of width 30 with \<open>30 k \<le> v < 30 (k + 1)\<close>, the offset
  is \<open>f = (v - 30 k) / 30\<close> in \<open>[0, 1)\<close>, and each channel of the result is the linear
  interpolation between stops \<open>k\<close> and \<open>k + 1\<close> at \<open>f\<close>, truncated to an integer (which moves
  it by less than 1).  At an interior boundary \<open>v = 30 k\<close> the result is stop \<open>k\<close> itself.
\<close>

theorem get_color_for_value_contract:
  fixes v :: real
  shows "(v \<le> 0 \<longrightarrow> get_color_for_value v 0 150 = Inr (hd GRADIENT_COLORS))
       \<and> (v \<ge> 150 \<longrightarrow> get_color_for_value v 0 150 = Inr (last GRADIENT_COLORS))
       \<and> (0 < v \<and> v < 150 \<longrightarrow>
            (let k = \<lfloor>v / 30\<rfloor>; f = (v - 30 * of_int k) / 30
             in 0 \<le> k \<and> k < 5 \<and> 30 * of_int k \<le> v \<and> v < 30 * of_int (k + 1) \<and> 0 \<le> f \<and> f < 1
                \<and> (case GRADIENT_COLORS ! nat k of (r1, g1, b1) \<Rightarrow>
                    case GRADIENT_COLORS ! nat (k + 1) of (r2, g2, b2) \<Rightarrow>
                      get_color_for_value v 0 150 =
                        Inr (py_int (lerp (of_int r1) (of_int r2) f),
                             py_int (lerp (of_int g1) (of_int g2) f),
                             py_int (lerp (of_int b1) (of_int b2) f)))))
       \<and> (\<forall>k \<in> {1, 2, 3, 4}. get_color_for_value (30 * of_int k) 0 150 = Inr (GRADIENT_COLORS ! nat k))
       \<and> (\<forall>r. \<bar>of_int (py_int r) - r\<bar> < 1)"
proof (intro conjI impI ballI allI)
  assume "v \<le> 0" then show "get_color_for_value v 0 150 = Inr (hd GRADIENT_COLORS)"
    by (rule get_color_low)
next
  assume "v \<ge> 150" then show "get_color_for_value v 0 150 = Inr (last GRADIENT_COLORS)"
    by (rule get_color_high)
next
  assume a: "0 < v \<and> v < 150"
  then have v: "0 < v" "v < 150" by simp_all
  define k where "k = \<lfloor>v / 30\<rfloor>"
  define f where "f = (v - 30 * of_int k) / 30"
  have k: "0 \<le> k" "k < 5" using section_bounds[OF v] by (simp_all add: k_def)
  have lo: "of_int k \<le> v / 30" unfolding k_def by (rule of_int_floor_le)
  have hi: "v / 30 < of_int (k + 1)" unfolding k_def by (simp add: floor_less_iff[symmetric])
  have r1: "30 * of_int k \<le> v" using lo by simp
  have r2: "v < 30 * of_int (k + 1)" using hi by simp
  have f: "0 \<le> f" "f < 1" using r1 r2 by (simp_all add: f_def)
  obtain a1 a2 a3 where c1: "GRADIENT_COLORS ! nat k = (a1, a2, a3)" by (cases "GRADIENT_COLORS ! nat k")
  obtain d1 d2 d3 where c2: "GRADIENT_COLORS ! nat (k + 1) = (d1, d2, d3)" by (cases "GRADIENT_COLORS ! nat (k + 1)")
  have "get_color_for_value v 0 150 = Inr (interpolate_color (a1, a2, a3) (d1, d2, d3) f)"
    using get_color_mid[OF v] by (simp add: k_def[symmetric] f_def[symmetric] c1 c2)
  then show "let k = \<lfloor>v / 30\<rfloor>; f = (v - 30 * of_int k) / 30
             in 0 \<le> k \<and> k < 5 \<and> 30 * of_int k \<le> v \<and> v < 30 * of_int (k + 1) \<and> 0 \<le> f \<and> f < 1
                \<and> (case GRADIENT_COLORS ! nat k of (r1, g1, b1) \<Rightarrow>
                    case GRADIENT_COLORS ! nat (k + 1) of (r2, g2, b2) \<Rightarrow>
                      get_color_for_value v 0 150 =
                        Inr (py_int (lerp (of_int r1) (of_int r2) f),
                             py_int (lerp (of_int g1) (of_int g2) f),
                             py_int (lerp (of_int b1) (of_int b2) f)))"
    unfolding Let_def k_def[symmetric] f_def[symmetric]
    using k r1 r2 f by (simp add: c1 c2 interpolate_color_lerp)
next
  fix k :: int assume "k \<in> {1, 2, 3, 4}"
  then show "get_color_for_value (30 * of_int k) 0 150 = Inr (GRADIENT_COLORS ! nat k)"
    by (rule get_color_boundary)
next
  fix r show "\<bar>of_int (py_int r) - r\<bar> < 1" by (rule py_int_close)
qed

theorem get_color_for_value_contract_witness:
  "get_color_for_value (-5) 0 150 = Inr (50, 205, 50)
   \<and> get_color_for_value 200 0 150 = Inr (128, 0, 0)
   \<and> get_color_for_value 45 0 150 = Inr (255, 210, 0)
   \<and> get_color_for_value 60 0 150 = Inr (255, 165, 0)"
  using get_color_for_value_contract[of "-5"] get_color_for_value_contract[of 200]
        get_color_for_value_contract[of 45]
  by (simp add: GRADIENT_COLORS_eq lerp_def py_int_def)

subsection \<open>Dataset generator\<close>

lemma np_clip_range: "lo \<le> hi \<Longrightarrow> lo \<le> np_clip v lo hi \<and> np_clip v lo hi \<le> hi"
  by (simp add: np_clip_def)

lemma length_base_pattern: "length (base_pattern yr) = 12"
  by (simp add: base_pattern_def)

lemma loop_body_row:
  "map (\<lambda>v. np_clip v 0 150) (map2 (+) (base_pattern yr) (map g [0..<12])) = clipped_row yr g"
  by (rule nth_equalityI) (simp_all add: clipped_row_def length_base_pattern)

lemma historical_loop_Cons:
  "historical_loop (yr # yrs) data g
     = historical_loop yrs (data(yr \<mapsto> clipped_row yr g)) (\<lambda>i. g (i + 12))"
  unfolding historical_loop.simps draws_def prod.case loop_body_row ..

declare historical_loop.simps(2) [simp del]

lemma sample_ok_clipped_row: "sample_ok (clipped_row yr noise)"
  using np_clip_range[of 0 150] by (auto simp: sample_ok_def clipped_row_def)

lemma historical_loop_rng:
  "snd (historical_loop yrs data g) = (\<lambda>i. g (i + 12 * length yrs))"
proof (induction yrs arbitrary: data g)
  case Nil
  show ?case by simp
next
  case (Cons y yrs)
  show ?case
    by (simp add: historical_loop_Cons Cons.IH ac_simps)
qed

lemma historical_loop_notin:
  "y \<notin> set yrs \<Longrightarrow> fst (historical_loop yrs data g) y = data y"
  by (induction yrs arbitrary: data g) (auto simp: historical_loop_Cons)

lemma historical_loop_in:
  "distinct yrs \<Longrightarrow> k < length yrs \<Longrightarrow>
   fst (historical_loop yrs data g) (yrs ! k) = Some (clipped_row (yrs ! k) (\<lambda>i. g (i + 12 * k)))"
proof (induction yrs arbitrary: data g k)
  case Nil
  then show ?case by simp
next
  case (Cons y yrs)
  show ?case
  proof (cases k)
    case 0
    have "fst (historical_loop (y # yrs) data g) y
            = (data(y \<mapsto> clipped_row y g)) y"
      using Cons.prems(1)
      by (simp add: historical_loop_Cons historical_loop_notin)
    then show ?thesis using 0 by simp
  next
    case (Suc j)
    have j: "j < length yrs" using Cons.prems(2) Suc by simp
    have d: "distinct yrs" using Cons.prems(1) by simp
    show ?thesis
      using Cons.IH[OF d j] Suc
      by (simp add: historical_loop_Cons ac_simps)
  qed
qed

lemma upto_nth_year: "k < 31 \<Longrightarrow> [1993..2023] ! k = 1993 + int k"
  by (simp add: nth_upto del: upto_rec_numeral)

lemma generate_historical_data_at:
  assumes "1993 \<le> yr" "yr \<le> 2023"
  shows "fst (generate_historical_data g) yr
           = Some (clipped_row yr (\<lambda>i. g (i + 12 * nat (yr - 1993))))"
proof -
  define k where "k = nat (yr - 1993)"
  have k: "k < length [1993..2023]" "[1993..2023] ! k = yr"
    using assms by (simp_all add: k_def nth_upto del: upto_rec_numeral)
  have "fst (historical_loop [1993..2023] Map.empty g) ([1993..2023] ! k)
          = Some (clipped_row ([1993..2023] ! k) (\<lambda>i. g (i + 12 * k)))"
    using k(1) by (intro historical_loop_in) (simp_all del: upto_rec_numeral)
  then show ?thesis
    by (simp add: generate_historical_data_def split_def k(2) del: upto_rec_numeral) (simp add: k_def)
qed

lemma generate_historical_data_outside:
  assumes "yr < 1993 \<or> 2023 < yr"
  shows "fst (generate_historical_data g) yr = None"
  using assms by (auto simp add: generate_historical_data_def split_def historical_loop_notin simp del: upto_rec_numeral)

lemma generate_historical_data_events:
  "fst (snd (generate_historical_data g)) = historical_events_table"
  by (simp add: generate_historical_data_def split_def)

lemma generate_historical_data_rng:
  "snd (snd (generate_historical_data g)) = (\<lambda>i. g (i + 372))"
  by (simp add: generate_historical_data_def split_def historical_loop_rng del: upto_rec_numeral)

lemma generate_historical_data_dom:
  "dom (fst (generate_historical_data g)) = {1993..2023}"
proof (rule set_eqI)
  fix yr :: int
  show "yr \<in> dom (fst (generate_historical_data g)) \<longleftrightarrow> yr \<in> {1993..2023}"
  proof (cases "1993 \<le> yr \<and> yr \<le> 2023")
    case True
    then show ?thesis using generate_historical_data_at[of yr g] by (auto simp: domIff)
  next
    case False
    then have "yr < 1993 \<or> 2023 < yr" by auto
    from generate_historical_data_outside[OF this, of g] False show ?thesis by (auto simp: domIff)
  qed
qed

lemma district_year_loop_Cons:
  "district_year_loop (yr # yrs) base_data row g =
     (case base_data yr of
        None \<Rightarrow> Inl KeyError
      | Some b \<Rightarrow>
          district_year_loop yrs base_data
            (row(yr \<mapsto> map (\<lambda>v. np_clip (v + g 0) 0 150) b)) (\<lambda>i. g (i + 1)))"
  by (simp add: draws_def comp_def split: option.splits)

declare district_year_loop.simps(2) [simp del]

lemma district_year_loop_ok:
  assumes "\<forall>y \<in> set yrs. \<exists>b. base_data y = Some b"
  shows "\<exists>row'. district_year_loop yrs base_data row g = Inr (row', \<lambda>i. g (i + length yrs))
           \<and> (\<forall>y. y \<notin> set yrs \<longrightarrow> row' y = row y)
           \<and> (distinct yrs \<longrightarrow> (\<forall>k < length yrs. \<forall>b. base_data (yrs ! k) = Some b \<longrightarrow>
                 row' (yrs ! k) = Some (map (\<lambda>v. np_clip (v + g k) 0 150) b)))"
  using assms
proof (induction yrs arbitrary: row g)
  case Nil
  show ?case by simp
next
  case (Cons y yrs)
  from Cons.prems obtain b where b: "base_data y = Some b" by auto
  define row1 where "row1 = row(y \<mapsto> map (\<lambda>v. np_clip (v + g 0) 0 150) b)"
  have "\<forall>y \<in> set yrs. \<exists>b. base_data y = Some b" using Cons.prems by simp
  from Cons.IH[OF this, of row1 "\<lambda>i. g (i + 1)"]
  obtain row' where r: "district_year_loop yrs base_data row1 (\<lambda>i. g (i + 1))
                          = Inr (row', \<lambda>i. g (i + 1 + length yrs))"
      and keep: "\<forall>z. z \<notin> set yrs \<longrightarrow> row' z = row1 z"
      and new: "distinct yrs \<longrightarrow> (\<forall>k < length yrs. \<forall>b. base_data (yrs ! k) = Some b \<longrightarrow>
                 row' (yrs ! k) = Some (map (\<lambda>v. np_clip (v + g (k + 1)) 0 150) b))"
    by auto
  have 1: "district_year_loop (y # yrs) base_data row g = Inr (row', \<lambda>i. g (i + length (y # yrs)))"
    using r by (simp add: district_year_loop_Cons b row1_def ac_simps)
  have 2: "\<forall>z. z \<notin> set (y # yrs) \<longrightarrow> row' z = row z"
    using keep by (simp add: row1_def)
  have 3: "distinct (y # yrs) \<longrightarrow> (\<forall>k < length (y # yrs). \<forall>b. base_data ((y # yrs) ! k) = Some b \<longrightarrow>
                 row' ((y # yrs) ! k) = Some (map (\<lambda>v. np_clip (v + g k) 0 150) b))"
  proof (intro impI allI)
    fix k c
    assume d: "distinct (y # yrs)" and k: "k < length (y # yrs)"
      and c: "base_data ((y # yrs) ! k) = Some c"
    show "row' ((y # yrs) ! k) = Some (map (\<lambda>v. np_clip (v + g k) 0 150) c)"
    proof (cases k)
      case 0
      then have "c = b" using c b by simp
      moreover have "row' y = row1 y" using keep d by simp
      ultimately show ?thesis using 0 by (simp add: row1_def)
    next
      case (Suc j)
      then show ?thesis using new d k c by simp
    qed
  qed
  from 1 2 3 show ?case by blast
qed

lemma district_year_loop_years:
  assumes "\<forall>y \<in> {1993..2023}. \<exists>b. base_data y = Some b"
  shows "district_year_loop [1993..2023] base_data Map.empty g
           = Inr (district_row base_data g, \<lambda>i. g (i + 31))"
proof -
  have a: "\<forall>y \<in> set [1993..2023]. \<exists>b. base_data y = Some b"
    using assms by (simp del: upto_rec_numeral)
  from district_year_loop_ok[OF a, of Map.empty g]
  obtain row' where r: "district_year_loop [1993..2023] base_data Map.empty g
                          = Inr (row', \<lambda>i. g (i + length [1993..2023]))"
      and keep: "\<forall>y. y \<notin> set [1993..2023] \<longrightarrow> row' y = None"
      and new: "\<forall>k < length [1993..2023]. \<forall>b. base_data ([1993..2023] ! k) = Some b \<longrightarrow>
                 row' ([1993..2023] ! k) = Some (map (\<lambda>v. np_clip (v + g k) 0 150) b)"
    by (auto simp del: upto_rec_numeral)
  have "row' yr = district_row base_data g yr" for yr
  proof (cases "1993 \<le> yr \<and> yr \<le> 2023")
    case True
    then have "yr \<in> {1993..2023}" by simp
    with assms obtain b where b: "base_data yr = Some b" by blast
    have "nat (yr - 1993) < 31" using True by linarith
    then have k: "nat (yr - 1993) < length [1993..2023]" "[1993..2023] ! nat (yr - 1993) = yr"
      using True by (simp_all add: nth_upto del: upto_rec_numeral)
    from new k b have "row' yr = Some (map (\<lambda>v. np_clip (v + g (nat (yr - 1993))) 0 150) b)"
      by metis
    then show ?thesis using True b by (simp add: district_row_def)
  next
    case False
    then have "yr \<notin> set [1993..2023]" by (auto simp del: upto_rec_numeral)
    with keep have "row' yr = None" by blast
    then show ?thesis using False by (auto simp add: district_row_def)
  qed
  then have "row' = district_row base_data g" by (rule ext)
  then show ?thesis using r by (simp del: upto_rec_numeral)
qed

lemma district_loop_ok:
  assumes base: "\<forall>y \<in> {1993..2023}. \<exists>b. base_data y = Some b"
    and rows: "\<forall>d \<in> set ds. dd d = Some Map.empty"
    and dist: "distinct ds"
  shows "\<exists>dd'. district_loop ds base_data dd g = Inr (dd', \<lambda>i. g (i + 31 * length ds))
           \<and> (\<forall>d. d \<notin> set ds \<longrightarrow> dd' d = dd d)
           \<and> (\<forall>j < length ds. dd' (ds ! j) = Some (district_row base_data (\<lambda>i. g (i + 31 * j))))"
  using rows dist
proof (induction ds arbitrary: dd g)
  case Nil
  show ?case by simp
next
  case (Cons d ds)
  define dd1 where "dd1 = dd(d \<mapsto> district_row base_data g)"
  have step: "district_loop (d # ds) base_data dd g = district_loop ds base_data dd1 (\<lambda>i. g (i + 31))"
    using Cons.prems by (simp add: district_year_loop_years[OF base] dd1_def del: upto_rec_numeral)
  have notin: "d \<notin> set ds" and d: "distinct ds" using Cons.prems by simp_all
  then have "\<forall>e \<in> set ds. dd1 e = Some Map.empty" using Cons.prems by (auto simp: dd1_def)
  from Cons.IH[OF this d, of "\<lambda>i. g (i + 31)"]
  obtain dd' where r: "district_loop ds base_data dd1 (\<lambda>i. g (i + 31))
                         = Inr (dd', \<lambda>i. g (i + 31 + 31 * length ds))"
    and keep: "\<forall>e. e \<notin> set ds \<longrightarrow> dd' e = dd1 e"
    and new: "\<forall>j < length ds.
               dd' (ds ! j) = Some (district_row base_data (\<lambda>i. g (i + 31 + 31 * j)))"
    by (auto simp: ac_simps)
  have 1: "district_loop (d # ds) base_data dd g = Inr (dd', \<lambda>i. g (i + 31 * length (d # ds)))"
    using r step by (simp add: ac_simps)
  have 2: "\<forall>e. e \<notin> set (d # ds) \<longrightarrow> dd' e = dd e"
    using keep by (simp add: dd1_def)
  have 3: "\<forall>j < length (d # ds).
               dd' ((d # ds) ! j) = Some (district_row base_data (\<lambda>i. g (i + 31 * j)))"
  proof (intro impI allI)
    fix j assume j: "j < length (d # ds)"
    show "dd' ((d # ds) ! j) = Some (district_row base_data (\<lambda>i. g (i + 31 * j)))"
    proof (cases j)
      case 0
      have "dd' d = dd1 d" using keep notin by simp
      then show ?thesis using 0 by (simp add: dd1_def)
    next
      case (Suc j')
      then show ?thesis using new j by (simp add: ac_simps)
    qed
  qed
  from 1 2 3 show ?case by blast
qed

lemma distinct_DISTRICTS: "distinct DISTRICTS"
  by (simp add: DISTRICTS_def)

lemma length_DISTRICTS: "length DISTRICTS = 9"
  by (simp add: DISTRICTS_def)

lemma generate_district_data_ok:
  "\<exists>dd. generate_district_data g = Inr (dd, historical_events_table, \<lambda>i. g (i + 651))
      \<and> (\<forall>d. d \<notin> set DISTRICTS \<longrightarrow> dd d = None)
      \<and> (\<forall>j < 9. dd (DISTRICTS ! j)
            = Some (district_row (fst (generate_historical_data g)) (\<lambda>i. g (i + 372 + 31 * j))))"
proof -
  define base_data where "base_data = fst (generate_historical_data g)"
  define dd0 :: "string \<rightharpoonup> (int \<rightharpoonup> real list)"
    where "dd0 = map_of (map (\<lambda>d. (d, Map.empty)) DISTRICTS)"
  have gh: "generate_historical_data g = (base_data, historical_events_table, \<lambda>i. g (i + 372))"
    using generate_historical_data_events[of g] generate_historical_data_rng[of g]
    by (simp add: base_data_def prod_eq_iff)
  have base: "\<forall>y \<in> {1993..2023}. \<exists>b. base_data y = Some b"
    using generate_historical_data_at[of _ g] by (simp add: base_data_def)
  have rows: "\<forall>d \<in> set DISTRICTS. dd0 d = Some Map.empty"
    by (auto simp: dd0_def map_of_map_restrict restrict_map_def)
  have out: "\<forall>d. d \<notin> set DISTRICTS \<longrightarrow> dd0 d = None"
    by (auto simp: dd0_def map_of_map_restrict restrict_map_def)
  from district_loop_ok[OF base rows distinct_DISTRICTS, of "\<lambda>i. g (i + 372)"]
  obtain dd' where r: "district_loop DISTRICTS base_data dd0 (\<lambda>i. g (i + 372))
                         = Inr (dd', \<lambda>i. g (i + 31 * length DISTRICTS + 372))"
    and keep: "\<forall>d. d \<notin> set DISTRICTS \<longrightarrow> dd' d = dd0 d"
    and new: "\<forall>j < length DISTRICTS.
               dd' (DISTRICTS ! j) = Some (district_row base_data (\<lambda>i. g (i + 31 * j + 372)))"
    by (auto simp: ac_simps)
  have "generate_district_data g = Inr (dd', historical_events_table, \<lambda>i. g (i + 651))"
    using r by (simp add: generate_district_data_def gh dd0_def[symmetric] length_DISTRICTS ac_simps)
  moreover have "\<forall>d. d \<notin> set DISTRICTS \<longrightarrow> dd' d = None" using keep out by simp
  moreover have "\<forall>j < 9. dd' (DISTRICTS ! j)
            = Some (district_row base_data (\<lambda>i. g (i + 372 + 31 * j)))"
    using new by (simp add: length_DISTRICTS ac_simps)
  ultimately show ?thesis unfolding base_data_def by blast
qed

lemma district_row_sample_ok:
  assumes "district_row base_data variation yr = Some s" "\<forall>b. base_data yr = Some b \<longrightarrow> length b = 12"
  shows "sample_ok s"
  using assms np_clip_range[of 0 150]
  by (auto simp: district_row_def sample_ok_def split: if_splits)

text \<open>
  C3.  Whatever values the random source returns, \<open>generate_historical_data\<close> has for every
  year from 1993 to 2023 a sample of 12 values, each within 0 and 150; and
  \<open>generate_district_data\<close> returns without error and has such a sample for every district
  of \<open>DISTRICTS\<close> and every year from 1993 to 2023.
\<close>

theorem generated_values_clamped:
  "(\<forall>yr \<in> {1993..2023}. \<exists>s. fst (generate_historical_data g) yr = Some s \<and> sample_ok s)
   \<and> (\<exists>dd ev g'. generate_district_data g = Inr (dd, ev, g')
         \<and> (\<forall>d \<in> set DISTRICTS. \<forall>yr \<in> {1993..2023}.
               \<exists>row s. dd d = Some row \<and> row yr = Some s \<and> sample_ok s))"
proof
  show "\<forall>yr \<in> {1993..2023}. \<exists>s. fst (generate_historical_data g) yr = Some s \<and> sample_ok s"
    using generate_historical_data_at[of _ g] sample_ok_clipped_row by simp
next
  define base_data where "base_data = fst (generate_historical_data g)"
  from generate_district_data_ok[of g]
  obtain dd where r: "generate_district_data g = Inr (dd, historical_events_table, \<lambda>i. g (i + 651))"
    and new: "\<forall>j < 9. dd (DISTRICTS ! j) = Some (district_row base_data (\<lambda>i. g (i + 372 + 31 * j)))"
    unfolding base_data_def by blast
  have len: "\<forall>b. base_data yr = Some b \<longrightarrow> length b = 12" for yr
  proof (cases "1993 \<le> yr \<and> yr \<le> 2023")
    case True
    then show ?thesis using generate_historical_data_at[of yr g]
      by (auto simp: base_data_def clipped_row_def)
  next
    case False
    then have "yr < 1993 \<or> 2023 < yr" by auto
    from generate_historical_data_outside[OF this, of g] show ?thesis by (simp add: base_data_def)
  qed
  have "\<exists>row s. dd d = Some row \<and> row yr = Some s \<and> sample_ok s"
    if d: "d \<in> set DISTRICTS" and yr: "yr \<in> {1993..2023}" for d yr
  proof -
    from d obtain j where j: "j < 9" "DISTRICTS ! j = d"
      by (auto simp: in_set_conv_nth length_DISTRICTS)
    have row: "dd d = Some (district_row base_data (\<lambda>i. g (i + 372 + 31 * j)))"
      using new j by auto
    obtain b where b: "base_data yr = Some b"
      using yr generate_historical_data_at[of yr g] by (auto simp: base_data_def)
    then obtain s where s: "district_row base_data (\<lambda>i. g (i + 372 + 31 * j)) yr = Some s"
      using yr by (simp add: district_row_def)
    from district_row_sample_ok[OF s len] have "sample_ok s" .
    with row s show ?thesis by blast
  qed
  with r show "\<exists>dd ev g'. generate_district_data g = Inr (dd, ev, g')
         \<and> (\<forall>d \<in> set DISTRICTS. \<forall>yr \<in> {1993..2023}.
               \<exists>row s. dd d = Some row \<and> row yr = Some s \<and> sample_ok s)"
    by blast
qed

theorem generated_values_clamped_witness:
  "(\<exists>s. fst (generate_historical_data (const_noise 1000)) 2000 = Some s \<and> sample_ok s)
   \<and> (\<exists>dd ev g'. generate_district_data (const_noise 1000) = Inr (dd, ev, g')
         \<and> (\<exists>row s. dd ''Eastern'' = Some row \<and> row 2000 = Some s \<and> sample_ok s))"
proof -
  have y: "(2000::int) \<in> {1993..2023}" by simp
  have d: "''Eastern'' \<in> set DISTRICTS" by (simp add: DISTRICTS_def)
  from generated_values_clamped[of "const_noise 1000"] y d show ?thesis by blast
qed

lemma clipped_row_cong:
  assumes "\<forall>i < 12. f i = h i"
  shows "clipped_row yr f = clipped_row yr h"
  using assms by (simp add: clipped_row_def)

text \<open>
  C9, in the form that holds of the code.  The mapping returned by \<open>generate_historical_data\<close> is a function of the
  372 values it draws from the random source: two invocations that draw the same values
  return equal mappings.  Besides returning the mapping, an invocation assigns the fixed
  table to \<open>self.historical_events\<close> and advances the random source by 372 draws.
\<close>

theorem generate_historical_data_effects:
  "((\<forall>i < 372. g i = h i) \<longrightarrow> fst (generate_historical_data g) = fst (generate_historical_data h))
   \<and> fst (snd (generate_historical_data g)) = historical_events_table
   \<and> snd (snd (generate_historical_data g)) = (\<lambda>i. g (i + 372))"
proof (intro conjI impI)
  assume eq: "\<forall>i < 372. g i = h i"
  show "fst (generate_historical_data g) = fst (generate_historical_data h)"
  proof (rule ext)
    fix yr :: int
    show "fst (generate_historical_data g) yr = fst (generate_historical_data h) yr"
    proof (cases "1993 \<le> yr \<and> yr \<le> 2023")
      case True
      have "\<forall>i < 12. g (i + 12 * nat (yr - 1993)) = h (i + 12 * nat (yr - 1993))"
      proof (intro allI impI)
        fix i :: nat assume "i < 12"
        moreover have "nat (yr - 1993) \<le> 30" using True by linarith
        ultimately have "i + 12 * nat (yr - 1993) < 372" by linarith
        with eq show "g (i + 12 * nat (yr - 1993)) = h (i + 12 * nat (yr - 1993))" by blast
      qed
      from clipped_row_cong[OF this] True show ?thesis
        by (simp add: generate_historical_data_at)
    next
      case False
      then have "yr < 1993 \<or> 2023 < yr" by auto
      then show ?thesis by (simp add: generate_historical_data_outside)
    qed
  qed
next
  show "fst (snd (generate_historical_data g)) = historical_events_table"
    by (rule generate_historical_data_events)
next
  show "snd (snd (generate_historical_data g)) = (\<lambda>i. g (i + 372))"
    by (rule generate_historical_data_rng)
qed

theorem generate_historical_data_effects_witness:
  "fst (generate_historical_data (const_noise 0)) = fst (generate_historical_data step_noise)
   \<and> snd (snd (generate_historical_data (const_noise 0))) 0 = 0"
proof -
  have "\<forall>i < 372. const_noise 0 i = step_noise i"
    by (simp add: const_noise_def step_noise_def)
  with generate_historical_data_effects[of "const_noise 0" step_noise] show ?thesis
    by (simp add: const_noise_def)
qed

text \<open>
  Two successive invocations need not agree: with a source whose first 372 values are 0 and
  whose later values are 1, the first invocation returns the unchanged 1993 pattern and the
  second, run on the source the first one left, returns every 1993 value raised by 1.  The
  source after the first invocation is not the source before it.
\<close>

theorem two_invocations_differ:
  "fst (generate_historical_data step_noise) 1993
     = Some [85, 95, 80, 75, 70, 65, 90, 100, 85, 80, 75, 70]
   \<and> fst (generate_historical_data (snd (snd (generate_historical_data step_noise)))) 1993
     = Some [86, 96, 81, 76, 71, 66, 91, 101, 86, 81, 76, 71]
   \<and> snd (snd (generate_historical_data step_noise)) 0 \<noteq> step_noise 0"
  by (simp add: generate_historical_data_at generate_historical_data_rng clipped_row_def
        step_noise_def base_pattern_def np_clip_def upt_rec)

subsection \<open>Interpolated AQI\<close>

lemma py_int_floor: "0 \<le> r \<Longrightarrow> py_int r = \<lfloor>r\<rfloor>"
  by (simp add: py_int_def)

lemma update_particles_aqi_spec:
  assumes "0 \<le> cy" "data \<lfloor>cy\<rfloor> = Some s0"
  shows "update_particles_aqi data cy = Inr (interpolated_value data cy)"
  using assms by (simp add: update_particles_aqi_def interpolated_value_def py_int_floor Let_def)

lemma draw_overall_aqi_spec:
  assumes "0 \<le> cy" "data \<lfloor>cy\<rfloor> = Some s0"
  shows "draw_overall_aqi data cy = Inr (interpolated_value data cy)"
  using assms by (simp add: draw_overall_aqi_def interpolated_value_def py_int_floor Let_def)

lemma district_aqi_spec:
  assumes "0 \<le> cy" "dd d = Some row" "row \<lfloor>cy\<rfloor> = Some s0"
  shows "district_aqi dd d cy = Inr (interpolated_value row cy)"
  using assms by (simp add: district_aqi_def interpolated_value_def py_int_floor Let_def)

lemma interpolated_value_half:
  assumes "Y < 2023" "Y + 1 \<in> dom sample"
  shows "interpolated_value sample (of_int Y + 1 / 2)
           = (np_mean (the (sample Y)) + np_mean (the (sample (Y + 1)))) / 2"
proof -
  have fl: "\<lfloor>of_int Y + 1 / 2 :: real\<rfloor> = Y" by linarith
  have m: "min 2023 (Y + 1) = Y + 1" using assms by simp
  have "interpolated_value sample (of_int Y + 1 / 2)
          = np_mean (the (sample Y)) + (np_mean (the (sample (Y + 1))) - np_mean (the (sample Y))) * (1 / 2)"
    using assms(2) unfolding interpolated_value_def Let_def fl m by simp
  also have "\<dots> = (np_mean (the (sample Y)) + np_mean (the (sample (Y + 1)))) / 2"
    by (simp add: field_simps)
  finally show ?thesis .
qed

text \<open>
  C2.  For a current year in [1993, 2023] and a dataset (overall, or the row of a district)
  with a sample for every year from 1993 to 2023, the AQI computed in \<open>update_particles\<close>,
  the overall AQI computed in \<open>draw\<close> and the district AQI computed in
  \<open>draw_district_visualization\<close> all equal the interpolated value of the specification:
  \<open>mean(sample[y0]) + (mean(sample[y1]) - mean(sample[y0])) * frac\<close> when \<open>frac > 0\<close> and
  \<open>y1\<close> is a key, \<open>mean(sample[y0])\<close> otherwise.  At \<open>Y + 1/2\<close> with \<open>1993 \<le> Y < 2023\<close> the
  value is the arithmetic mean of \<open>mean(sample[Y])\<close> and \<open>mean(sample[Y + 1])\<close>.
\<close>

theorem interpolated_aqi_rule:
  fixes current_year :: real
  assumes "1993 \<le> current_year" "current_year \<le> 2023"
    and "\<forall>yr \<in> {1993..2023}. \<exists>s. data yr = Some s"
    and "dd d = Some row" "\<forall>yr \<in> {1993..2023}. \<exists>s. row yr = Some s"
  shows "update_particles_aqi data current_year = Inr (interpolated_value data current_year)
       \<and> draw_overall_aqi data current_year = Inr (interpolated_value data current_year)
       \<and> district_aqi dd d current_year = Inr (interpolated_value row current_year)
       \<and> (\<forall>Y. 1993 \<le> Y \<and> Y < 2023 \<longrightarrow>
             interpolated_value data (of_int Y + 1 / 2)
               = (np_mean (the (data Y)) + np_mean (the (data (Y + 1)))) / 2
           \<and> interpolated_value row (of_int Y + 1 / 2)
               = (np_mean (the (row Y)) + np_mean (the (row (Y + 1)))) / 2)"
proof -
  have fl: "\<lfloor>current_year\<rfloor> \<in> {1993..2023}"
    using assms(1,2) by (auto simp: le_floor_iff floor_le_iff)
  from fl assms(3) obtain s0 where s0: "data \<lfloor>current_year\<rfloor> = Some s0" by blast
  from fl assms(5) obtain r0 where r0: "row \<lfloor>current_year\<rfloor> = Some r0" by blast
  have nn: "0 \<le> current_year" using assms(1) by simp
  have half: "interpolated_value data (of_int Y + 1 / 2)
               = (np_mean (the (data Y)) + np_mean (the (data (Y + 1)))) / 2
           \<and> interpolated_value row (of_int Y + 1 / 2)
               = (np_mean (the (row Y)) + np_mean (the (row (Y + 1)))) / 2"
    if "1993 \<le> Y \<and> Y < 2023" for Y
  proof -
    have "Y + 1 \<in> {1993..2023}" using that by simp
    then have "Y + 1 \<in> dom data" "Y + 1 \<in> dom row" using assms(3,5) by blast+
    then show ?thesis using that by (simp add: interpolated_value_half)
  qed
  show ?thesis
    using update_particles_aqi_spec[of current_year data s0, OF nn s0]
      draw_overall_aqi_spec[of current_year data s0, OF nn s0]
      district_aqi_spec[of current_year dd d row r0, OF nn assms(4) r0] half
    by blast
qed

lemma clipped_row_zero: "clipped_row yr (\<lambda>i. 0) = base_pattern yr"
  by (simp add: clipped_row_def base_pattern_def np_clip_def upt_rec)

lemma np_mean_base_2000: "np_mean (base_pattern 2000) = 970 / 12"
  by (simp add: base_pattern_def np_mean_def)

lemma np_mean_base_2001: "np_mean (base_pattern 2001) = 790 / 12"
  by (simp add: base_pattern_def np_mean_def)

lemma zero_noise_value:
  "interpolated_value (fst (generate_historical_data (const_noise 0))) (4001 / 2) = 220 / 3"
proof -
  have fl: "\<lfloor>4001 / 2 :: real\<rfloor> = 2000" by simp
  show ?thesis
    unfolding interpolated_value_def Let_def fl
    by (simp add: generate_historical_data_at domIff const_noise_def clipped_row_zero
          np_mean_base_2000 np_mean_base_2001)
qed

lemma district_row_zero:
  "1993 \<le> yr \<Longrightarrow> yr \<le> 2023 \<Longrightarrow>
   district_row (fst (generate_historical_data (\<lambda>i. 0))) (\<lambda>i. 0) yr = Some (base_pattern yr)"
proof -
  assume a: "1993 \<le> yr" "yr \<le> 2023"
  have "map (\<lambda>v. np_clip (v + 0) 0 150) (base_pattern yr) = base_pattern yr"
    by (simp add: base_pattern_def np_clip_def)
  then show ?thesis
    using a by (simp add: district_row_def generate_historical_data_at clipped_row_zero)
qed

lemma zero_noise_district_value:
  "interpolated_value
     (district_row (fst (generate_historical_data (const_noise 0))) (\<lambda>i. const_noise 0 (f i)))
     (4001 / 2) = 220 / 3"
proof -
  have fl: "\<lfloor>4001 / 2 :: real\<rfloor> = 2000" by simp
  show ?thesis
    unfolding interpolated_value_def Let_def fl
    by (simp add: const_noise_def district_row_zero domIff np_mean_base_2000 np_mean_base_2001)
qed

theorem interpolated_aqi_rule_witness:
  "update_particles_aqi (fst (generate_historical_data (const_noise 0))) (4001 / 2) = Inr (220 / 3)
   \<and> draw_overall_aqi (fst (generate_historical_data (const_noise 0))) (4001 / 2) = Inr (220 / 3)
   \<and> (\<exists>dd ev g'. generate_district_data (const_noise 0) = Inr (dd, ev, g')
         \<and> district_aqi dd ''Eastern'' (4001 / 2) = Inr (220 / 3))"
proof -
  define data where "data = fst (generate_historical_data (const_noise 0))"
  define row where "row = district_row data (\<lambda>i. const_noise 0 (i + 372 + 31 * 1))"
  from generate_district_data_ok[of "const_noise 0"]
  obtain dd where r: "generate_district_data (const_noise 0)
                        = Inr (dd, historical_events_table, \<lambda>i. const_noise 0 (i + 651))"
    and new: "\<forall>j < 9. dd (DISTRICTS ! j) = Some (district_row data (\<lambda>i. const_noise 0 (i + 372 + 31 * j)))"
    unfolding data_def by blast
  have "dd (DISTRICTS ! 1) = Some row" using new unfolding row_def by simp
  then have dd: "dd ''Eastern'' = Some row" by (simp add: DISTRICTS_def)
  have h1: "\<forall>yr \<in> {1993..2023}. \<exists>s. data yr = Some s"
    by (simp add: data_def generate_historical_data_at)
  have h2: "\<forall>yr \<in> {1993..2023}. \<exists>s. row yr = Some s"
    by (simp add: row_def district_row_def data_def generate_historical_data_at)
  have b: "(1993::real) \<le> 4001 / 2" "(4001 / 2 :: real) \<le> 2023" by simp_all
  from interpolated_aqi_rule[of "4001 / 2" data dd "''Eastern''" row, OF b h1 dd h2]
  have "update_particles_aqi data (4001 / 2) = Inr (220 / 3)
      \<and> draw_overall_aqi data (4001 / 2) = Inr (220 / 3)
      \<and> district_aqi dd ''Eastern'' (4001 / 2) = Inr (220 / 3)"
    by (simp add: data_def row_def zero_noise_value zero_noise_district_value)
  with r show ?thesis unfolding data_def by blast
qed

subsection \<open>Initial state and invariant\<close>

lemma particles_loop_Suc:
  "particles_loop (Suc n) c sz sp ps g =
     particles_loop n c sz sp
       (ps @ [\<lparr>pos_x = g 0, pos_y = g 1, pos_z = g 2, color = c, base_size = sz, speed = sp,
               angle = g 3, size_attr = None\<rparr>])
       (\<lambda>i. g (i + 4))"
  by (simp add: Particle_init_def draws_def eval_nat_numeral)

declare particles_loop.simps(2) [simp del]

lemma particles_loop_length:
  "length (fst (particles_loop n c sz sp ps g)) = length ps + n"
  by (induction n arbitrary: ps g) (simp_all add: particles_loop_Suc)

lemma particles_loop_props:
  assumes "\<forall>p \<in> set ps. color p = c \<and> base_size p = sz \<and> speed p = sp \<and> size_attr p = None"
  shows "\<forall>p \<in> set (fst (particles_loop n c sz sp ps g)).
           color p = c \<and> base_size p = sz \<and> speed p = sp \<and> size_attr p = None"
  using assms
proof (induction n arbitrary: ps g)
  case 0
  then show ?case by simp
next
  case (Suc n)
  show ?case
    unfolding particles_loop_Suc
    by (rule Suc.IH) (use Suc.prems in simp)
qed

lemma lookup_year_1993:
  "data 1993 = Some s \<Longrightarrow> lookup_year data 1993 = Inr s"
  by (simp add: lookup_year_def py_int_def)

lemma AirQualityViz_init_ok:
  "\<exists>self g pg. AirQualityViz_init np_g py_g = Inr (self, g, pg)
      \<and> viz_inv self \<and> year self = 1993 \<and> target_year self = 1993
      \<and> selected_district self = None
      \<and> aqi_data self = fst (generate_historical_data np_g)
      \<and> length (particles self) = 200
      \<and> (\<forall>p \<in> set (particles self).
            (color p, base_size p, speed p)
              = get_particle_properties (np_mean (clipped_row 1993 np_g))
            \<and> size_attr p = None)"
proof -
  define data where "data = fst (generate_historical_data np_g)"
  define g1 where "g1 = (\<lambda>i. np_g (i + 372))"
  have gh: "generate_historical_data np_g = (data, historical_events_table, g1)"
    using generate_historical_data_events[of np_g] generate_historical_data_rng[of np_g]
    by (simp add: data_def g1_def prod_eq_iff)
  from generate_district_data_ok[of g1]
  obtain dd where gd: "generate_district_data g1 = Inr (dd, historical_events_table, \<lambda>i. g1 (i + 651))"
    and rows: "\<forall>j < 9. dd (DISTRICTS ! j)
            = Some (district_row (fst (generate_historical_data g1)) (\<lambda>i. g1 (i + 372 + 31 * j)))"
    by blast
  have d1993: "data 1993 = Some (clipped_row 1993 np_g)"
    by (simp add: data_def generate_historical_data_at)
  obtain c sz sp where props: "get_particle_properties (np_mean (clipped_row 1993 np_g)) = (c, sz, sp)"
    by (cases "get_particle_properties (np_mean (clipped_row 1993 np_g))") auto
  define ps where "ps = fst (particles_loop 200 c sz sp [] py_g)"
  define pg where "pg = snd (particles_loop 200 c sz sp [] py_g)"
  define self where "self = \<lparr>particles = ps, year = 1993, target_year = 1993,
                        year_transition_speed = 0.05, aqi_data = data, district_data = dd,
                        historical_events = historical_events_table, selected_district = None\<rparr>"
  have lk: "lookup_year data 1993 = Inr (clipped_row 1993 np_g)"
    using d1993 by (rule lookup_year_1993)
  have run: "AirQualityViz_init np_g py_g = Inr (self, \<lambda>i. g1 (i + 651), pg)"
    by (simp add: AirQualityViz_init_def gh gd initialize_particles_def lk
          props self_def ps_def pg_def split_def)
  have k1: "\<forall>yr \<in> {1993..2023}. \<exists>s. data yr = Some s"
    by (simp add: data_def generate_historical_data_at)
  have k2: "\<forall>d \<in> set DISTRICTS. \<exists>row. dd d = Some row \<and> (\<forall>yr \<in> {1993..2023}. \<exists>s. row yr = Some s)"
  proof
    fix d assume "d \<in> set DISTRICTS"
    then obtain j where j: "j < 9" "DISTRICTS ! j = d"
      by (auto simp: in_set_conv_nth length_DISTRICTS)
    with rows have "dd d = Some (district_row (fst (generate_historical_data g1)) (\<lambda>i. g1 (i + 372 + 31 * j)))"
      by auto
    moreover have "\<forall>yr \<in> {1993..2023}. \<exists>s. district_row (fst (generate_historical_data g1)) (\<lambda>i. g1 (i + 372 + 31 * j)) yr = Some s"
      by (simp add: district_row_def generate_historical_data_at)
    ultimately show "\<exists>row. dd d = Some row \<and> (\<forall>yr \<in> {1993..2023}. \<exists>s. row yr = Some s)"
      by blast
  qed
  have inv: "viz_inv self"
    using k1 k2 by (simp add: viz_inv_def self_def)
  have len: "length (particles self) = 200"
    by (simp add: self_def ps_def particles_loop_length)
  have "\<forall>p \<in> set ps. color p = c \<and> base_size p = sz \<and> speed p = sp \<and> size_attr p = None"
    unfolding ps_def by (rule particles_loop_props) simp
  then have all: "\<forall>p \<in> set (particles self).
            (color p, base_size p, speed p) = (c, sz, sp) \<and> size_attr p = None"
    by (simp add: self_def)
  show ?thesis
    using run inv len all props by (simp add: self_def data_def)
qed

subsection \<open>Frames never fail and keep the invariant\<close>

lemma get_color_for_value_total: "\<exists>c. get_color_for_value v 0 150 = Inr c"
proof -
  consider "v \<le> 0" | "v \<ge> 150" | "0 < v" "v < 150" by linarith
  then show ?thesis
  proof cases
    case 1 then show ?thesis using get_color_low by blast
  next
    case 2 then show ?thesis using get_color_high by blast
  next
    case 3 then show ?thesis using get_color_mid by blast
  qed
qed

lemma floor_year_range:
  fixes r :: real
  assumes "1993 \<le> r" "r \<le> 2023"
  shows "py_int r \<in> {1993..2023}"
  using assms by (auto simp: py_int_def le_floor_iff floor_le_iff)

lemma update_particles_aqi_total:
  assumes "1993 \<le> r" "r \<le> 2023" "\<forall>yr \<in> {1993..2023}. \<exists>s. data yr = Some s"
  shows "\<exists>a. update_particles_aqi data r = Inr a"
proof -
  from floor_year_range[OF assms(1,2)] assms(3) obtain s where "data (py_int r) = Some s" by blast
  then show ?thesis by (simp add: update_particles_aqi_def Let_def)
qed

lemma draw_overall_aqi_total:
  assumes "1993 \<le> r" "r \<le> 2023" "\<forall>yr \<in> {1993..2023}. \<exists>s. data yr = Some s"
  shows "\<exists>a. draw_overall_aqi data r = Inr a"
proof -
  from floor_year_range[OF assms(1,2)] assms(3) obtain s where "data (py_int r) = Some s" by blast
  then show ?thesis by (simp add: draw_overall_aqi_def Let_def)
qed

lemma district_aqi_total:
  assumes "1993 \<le> r" "r \<le> 2023" "dd d = Some row" "\<forall>yr \<in> {1993..2023}. \<exists>s. row yr = Some s"
  shows "\<exists>a. district_aqi dd d r = Inr a"
proof -
  from floor_year_range[OF assms(1,2)] assms(4) obtain s where "row (py_int r) = Some s" by blast
  then show ?thesis using assms(3) by (simp add: district_aqi_def Let_def)
qed

lemma district_cells_total:
  assumes "1993 \<le> year self" "year self \<le> 2023"
    and "\<forall>d \<in> set ds. \<exists>row. district_data self d = Some row
            \<and> (\<forall>yr \<in> {1993..2023}. \<exists>s. row yr = Some s)"
  shows "\<exists>cs. district_cells self ds = Inr cs"
  using assms(3)
proof (induction ds)
  case Nil
  show ?case by simp
next
  case (Cons d ds)
  from Cons.prems obtain row where row: "district_data self d = Some row"
      "\<forall>yr \<in> {1993..2023}. \<exists>s. row yr = Some s" by auto
  from district_aqi_total[of "year self" "district_data self" d row, OF assms(1,2) row] obtain a
    where a: "district_aqi (district_data self) d (year self) = Inr a" by blast
  from get_color_for_value_total[of a] obtain c where c: "get_color_for_value a 0 150 = Inr c" by blast
  from Cons.IH Cons.prems obtain cs where cs: "district_cells self ds = Inr cs" by auto
  show ?case by (simp add: a c cs)
qed

lemma graph_points_total:
  assumes "\<forall>yr \<in> set yrs. \<exists>s. data yr = Some s"
  shows "\<exists>pts. graph_points data yrs = Inr pts"
  using assms
proof (induction yrs)
  case Nil
  show ?case by simp
next
  case (Cons y yrs)
  from Cons.prems obtain s where s: "data y = Some s" by auto
  from Cons.IH Cons.prems obtain pts where pts: "graph_points data yrs = Inr pts" by auto
  show ?case by (simp add: s pts)
qed

lemma draw_total:
  assumes "viz_inv self"
  shows "\<exists>scr. draw self = Inr scr"
proof -
  from assms have y: "1993 \<le> year self" "year self \<le> 2023"
    and k1: "\<forall>yr \<in> {1993..2023}. \<exists>s. aqi_data self yr = Some s"
    and k2: "\<forall>d \<in> set DISTRICTS. \<exists>row. district_data self d = Some row
            \<and> (\<forall>yr \<in> {1993..2023}. \<exists>s. row yr = Some s)"
    by (simp_all add: viz_inv_def)
  from district_cells_total[OF y k2] obtain cs where cs: "district_cells self DISTRICTS = Inr cs" by blast
  have "\<forall>yr \<in> set [1993..2023]. \<exists>s. aqi_data self yr = Some s"
    using k1 by (simp del: upto_rec_numeral)
  from graph_points_total[OF this] obtain pts
    where pts: "graph_points (aqi_data self) [1993..2023] = Inr pts" by blast
  from draw_overall_aqi_total[OF y k1] obtain a
    where a: "draw_overall_aqi (aqi_data self) (year self) = Inr a" by blast
  show ?thesis by (simp add: draw_def cs pts a del: upto_rec_numeral)
qed

lemma next_year_bounds:
  assumes "viz_inv self"
  shows "1993 \<le> next_year self" "next_year self \<le> 2023"
proof -
  from assms have y: "1993 \<le> year self" "year self \<le> 2023"
    and t: "1993 \<le> target_year self" "target_year self \<le> 2023"
    and sp: "year_transition_speed self = 0.05"
    by (simp_all add: viz_inv_def)
  have t': "(1993::real) \<le> of_int (target_year self)" "of_int (target_year self) \<le> (2023::real)"
    using t by simp_all
  have lo: "1993 \<le> year self + (of_int (target_year self) - year self) / 20"
    using y t' by (simp add: field_simps)
  have hi: "year self + (of_int (target_year self) - year self) / 20 \<le> 2023"
    using y t' by (simp add: field_simps)
  show "1993 \<le> next_year self" unfolding next_year_def sp using lo t' by simp
  show "next_year self \<le> 2023" unfolding next_year_def sp using hi t' by simp
qed

lemma update_particles_ok:
  assumes "viz_inv self"
  shows "\<exists>v a. update_particles self dtheta ticks = Inr v
           \<and> update_particles_aqi (aqi_data self) (next_year self) = Inr a
           \<and> v = self\<lparr>year := next_year self,
                      particles :=
                        map (\<lambda>(i, p). move (p\<lparr>color := fst (get_particle_properties a),
                                                size_attr := Some (fst (snd (get_particle_properties a))),
                                                speed := snd (snd (get_particle_properties a))\<rparr>)
                                         (dtheta i) (ticks i))
                            (enumerate 0 (particles self))\<rparr>
           \<and> viz_inv v"
proof -
  from assms have k1: "\<forall>yr \<in> {1993..2023}. \<exists>s. aqi_data self yr = Some s"
    by (simp add: viz_inv_def)
  note b = next_year_bounds[OF assms]
  from update_particles_aqi_total[OF b k1] obtain a
    where a: "update_particles_aqi (aqi_data self) (next_year self) = Inr a" by blast
  define v where "v = self\<lparr>year := next_year self,
                      particles :=
                        map (\<lambda>(i, p). move (p\<lparr>color := fst (get_particle_properties a),
                                                size_attr := Some (fst (snd (get_particle_properties a))),
                                                speed := snd (snd (get_particle_properties a))\<rparr>)
                                         (dtheta i) (ticks i))
                            (enumerate 0 (particles self))\<rparr>"
  have "update_particles self dtheta ticks = Inr v"
    unfolding update_particles_def next_year_def[symmetric] Let_def
    by (simp add: a v_def split_def)
  moreover have "viz_inv v" using assms b by (simp add: viz_inv_def v_def)
  ultimately show ?thesis using a v_def by blast
qed

lemma handle_event_inv:
  assumes "state_inv s"
  shows "state_inv (handle_event s e)"
proof (cases e)
  case (KEYDOWN k)
  then show ?thesis using assms by (cases k) (auto simp: state_inv_def viz_inv_def)
next
  case (MOUSEBUTTONDOWN mx my)
  then show ?thesis using assms by (auto simp: state_inv_def viz_inv_def Let_def)
qed (use assms in \<open>auto simp: state_inv_def viz_inv_def\<close>)

lemma foldl_handle_event_inv:
  "state_inv s \<Longrightarrow> state_inv (foldl handle_event s evs)"
  by (induction evs arbitrary: s) (simp_all add: handle_event_inv)

lemma frame_ok:
  assumes "state_inv s"
  shows "\<exists>s'. frame s inp = Inr s' \<and> state_inv s'
           \<and> running s' = running (foldl handle_event s (in_events inp))
           \<and> (let s1 = foldl handle_event s (in_events inp)
               in if frame_count s1 + 1 \<ge> 300
                  then target_year (viz s') = advance (target_year (viz s1)) \<and> frame_count s' = 0
                  else target_year (viz s') = target_year (viz s1)
                       \<and> frame_count s' = frame_count s1 + 1)"
proof -
  define s1 where "s1 = foldl handle_event s (in_events inp)"
  have i1: "state_inv s1" unfolding s1_def using assms by (rule foldl_handle_event_inv)
  then have v1: "viz_inv (viz s1)" and fc: "0 \<le> frame_count s1" "frame_count s1 < 300"
    by (simp_all add: state_inv_def)
  from update_particles_ok[OF v1, of "in_dtheta inp" "in_ticks inp"]
  obtain v where v: "update_particles (viz s1) (in_dtheta inp) (in_ticks inp) = Inr v"
    and tv: "target_year v = target_year (viz s1)" and iv: "viz_inv v"
    by auto
  from draw_total[OF iv] obtain scr where scr: "draw v = Inr scr" by blast
  show ?thesis
  proof (cases "frame_count s1 + 1 \<ge> 300")
    case True
    define s' where "s' = s1\<lparr>viz := v\<lparr>target_year := advance (target_year v)\<rparr>, frame_count := 0\<rparr>"
    have "frame s inp = Inr s'"
      using True by (simp add: frame_def s1_def[symmetric] v scr s'_def advance_def Let_def)
    moreover have "state_inv s'"
      using iv by (auto simp: state_inv_def viz_inv_def s'_def advance_def)
    ultimately show ?thesis
      using True tv unfolding Let_def s1_def[symmetric] by (simp add: s'_def)
  next
    case False
    define s' where "s' = s1\<lparr>viz := v, frame_count := frame_count s1 + 1\<rparr>"
    have "frame s inp = Inr s'"
      using False by (simp add: frame_def s1_def[symmetric] v scr s'_def Let_def)
    moreover have "state_inv s'"
      using iv fc False by (auto simp: state_inv_def s'_def)
    ultimately show ?thesis
      using False tv unfolding Let_def s1_def[symmetric] by (simp add: s'_def)
  qed
qed

lemma main_loop_ok:
  "state_inv s \<Longrightarrow> \<exists>s'. main_loop s inps = Inr s' \<and> state_inv s'"
proof (induction inps arbitrary: s)
  case Nil
  then show ?case by simp
next
  case (Cons inp inps)
  show ?case
  proof (cases "running s")
    case False
    then show ?thesis using Cons.prems by simp
  next
    case True
    from frame_ok[OF Cons.prems, of inp] obtain s1 where s1: "frame s inp = Inr s1" "state_inv s1"
      by blast
    from Cons.IH[OF s1(2)] show ?thesis using True s1(1) by simp
  qed
qed

lemma main_loop_append:
  "main_loop s (xs @ ys) = (case main_loop s xs of Inl e \<Rightarrow> Inl e | Inr s' \<Rightarrow> main_loop s' ys)"
proof (induction xs arbitrary: s)
  case Nil
  show ?case by simp
next
  case (Cons x xs)
  show ?case
  proof (cases "running s")
    case False
    then show ?thesis by (cases ys) simp_all
  next
    case True
    then show ?thesis by (simp add: Cons.IH split: sum.splits)
  qed
qed

subsection \<open>Start state, hit testing and particle wraparound\<close>

lemma main_init_ok:
  "\<exists>s g pg. main_init np_g py_g = Inr (s, g, pg) \<and> state_inv s \<and> running s
      \<and> frame_count s = 0 \<and> year (viz s) = 1993 \<and> target_year (viz s) = 1993
      \<and> selected_district (viz s) = None
      \<and> aqi_data (viz s) = fst (generate_historical_data np_g)
      \<and> length (particles (viz s)) = 200
      \<and> (\<forall>p \<in> set (particles (viz s)).
            (color p, base_size p, speed p)
              = get_particle_properties (np_mean (clipped_row 1993 np_g))
            \<and> size_attr p = None)"
proof -
  from AirQualityViz_init_ok[of np_g py_g]
  obtain self g pg where i: "AirQualityViz_init np_g py_g = Inr (self, g, pg)"
    and rest: "viz_inv self" "year self = 1993" "target_year self = 1993"
      "selected_district self = None" "aqi_data self = fst (generate_historical_data np_g)"
      "length (particles self) = 200"
      "\<forall>p \<in> set (particles self).
            (color p, base_size p, speed p)
              = get_particle_properties (np_mean (clipped_row 1993 np_g))
            \<and> size_attr p = None"
    by blast
  have "main_init np_g py_g = Inr (\<lparr>viz = self, running = True, frame_count = 0\<rparr>, g, pg)"
    by (simp add: main_init_def i)
  moreover have "state_inv \<lparr>viz = self, running = True, frame_count = 0\<rparr>"
    using rest(1) by (simp add: state_inv_def)
  ultimately show ?thesis using rest by auto
qed

lemma start_state_props:
  "state_inv start_state" "running start_state" "frame_count start_state = 0"
  "year (viz start_state) = 1993" "target_year (viz start_state) = 1993"
  "selected_district (viz start_state) = None"
  "aqi_data (viz start_state) = fst (generate_historical_data (const_noise 0))"
  "length (particles (viz start_state)) = 200"
  "\<forall>p \<in> set (particles (viz start_state)).
      (color p, base_size p, speed p)
        = get_particle_properties (np_mean (clipped_row 1993 (const_noise 0)))
      \<and> size_attr p = None"
proof -
  from main_init_ok[of "const_noise 0" "const_noise 0"]
  obtain s g pg where i: "main_init (const_noise 0) (const_noise 0) = Inr (s, g, pg)"
    and rest: "state_inv s" "running s" "frame_count s = 0" "year (viz s) = 1993"
      "target_year (viz s) = 1993" "selected_district (viz s) = None"
      "aqi_data (viz s) = fst (generate_historical_data (const_noise 0))"
      "length (particles (viz s)) = 200"
      "\<forall>p \<in> set (particles (viz s)).
            (color p, base_size p, speed p)
              = get_particle_properties (np_mean (clipped_row 1993 (const_noise 0)))
            \<and> size_attr p = None"
    by blast
  have eq: "start_state = s" by (simp add: start_state_def i)
  show "state_inv start_state" "running start_state" "frame_count start_state = 0"
    "year (viz start_state) = 1993" "target_year (viz start_state) = 1993"
    "selected_district (viz start_state) = None"
    "aqi_data (viz start_state) = fst (generate_historical_data (const_noise 0))"
    "length (particles (viz start_state)) = 200"
    "\<forall>p \<in> set (particles (viz start_state)).
      (color p, base_size p, speed p)
        = get_particle_properties (np_mean (clipped_row 1993 (const_noise 0)))
      \<and> size_attr p = None"
    using rest unfolding eq by blast+
qed

lemma cell_width_value: "(WIDTH - 2 * 50) div 3 = 366"
  by (simp add: WIDTH_def)

lemma handle_mouse:
  "handle_event s (MOUSEBUTTONDOWN mx my) =
     (if 100 \<le> my \<and> my \<le> 700
         \<and> 0 \<le> (my - 100) div 200 * 3 + (mx - 50) div 366
         \<and> (my - 100) div 200 * 3 + (mx - 50) div 366 < 9
      then s\<lparr>viz := (viz s)\<lparr>selected_district :=
                  Some (DISTRICTS ! nat ((my - 100) div 200 * 3 + (mx - 50) div 366))\<rparr>\<rparr>
      else s)"
  unfolding handle_event.simps Let_def cell_width_value length_DISTRICTS
  by (cases "100 \<le> my \<and> my \<le> 700") auto

declare handle_event.simps(6) [simp del]

text \<open>
  C6.  A pointer press at \<open>(mx, my)\<close> computes \<open>row = (my - 100) div 200\<close>,
  \<open>col = (mx - 50) div cell_width\<close> and \<open>index = row * 3 + col\<close>; it selects
  \<open>DISTRICTS[index]\<close> exactly when \<open>100 \<le> my \<le> 700\<close> and \<open>0 \<le> index < 9\<close>, and otherwise
  leaves the whole state unchanged.  A press at \<open>(50, 100)\<close> selects \<open>DISTRICTS[0]\<close>; a press
  at \<open>my = 50\<close> changes nothing.
\<close>

theorem district_hit_test:
  "handle_event s (MOUSEBUTTONDOWN mx my) =
     (let row = (my - 100) div 200;
          col = (mx - 50) div ((WIDTH - 2 * 50) div 3);
          index = row * 3 + col
      in if 100 \<le> my \<and> my \<le> 700 \<and> 0 \<le> index \<and> index < 9
         then s\<lparr>viz := (viz s)\<lparr>selected_district := Some (DISTRICTS ! nat index)\<rparr>\<rparr>
         else s)
   \<and> handle_event s (MOUSEBUTTONDOWN 50 100)
       = s\<lparr>viz := (viz s)\<lparr>selected_district := Some (DISTRICTS ! 0)\<rparr>\<rparr>
   \<and> handle_event s (MOUSEBUTTONDOWN mx 50) = s"
  unfolding cell_width_value Let_def
  by (simp add: handle_mouse)

theorem district_hit_test_witness:
  "selected_district (viz (handle_event start_state (MOUSEBUTTONDOWN 420 350))) = Some ''Kowloon City''
   \<and> selected_district (viz (handle_event start_state (MOUSEBUTTONDOWN 50 100)))
       = Some ''Central & Western''
   \<and> selected_district (viz (handle_event start_state (MOUSEBUTTONDOWN 420 50))) = None
   \<and> selected_district (viz (handle_event start_state (MOUSEBUTTONDOWN 1190 700))) = None"
  using district_hit_test[of start_state 420 350] district_hit_test[of start_state 420 50]
    district_hit_test[of start_state 1190 700]
  by (simp add: WIDTH_def Let_def DISTRICTS_def start_state_props(6))

text \<open>
  C10, in the form that holds of the code.  For every pointer press with \<open>-316 \<le> mx < 50\<close> (which includes every
  press inside the window left of the grid margin) and \<open>300 \<le> my \<le> 700\<close>, floor division
  gives \<open>col = -1\<close>, so \<open>index = row * 3 - 1\<close> lies in \<open>[0, 9)\<close> and \<open>DISTRICTS[index]\<close> is
  selected.
\<close>

theorem left_margin_hit:
  assumes "- 316 \<le> mx" "mx < 50" "300 \<le> my" "my \<le> 700"
  shows "(mx - 50) div ((WIDTH - 2 * 50) div 3) = - 1
       \<and> (let row = (my - 100) div 200; index = row * 3 - 1
          in 0 \<le> index \<and> index < 9
             \<and> handle_event s (MOUSEBUTTONDOWN mx my)
                 = s\<lparr>viz := (viz s)\<lparr>selected_district := Some (DISTRICTS ! nat index)\<rparr>\<rparr>)"
proof -
  have col: "(mx - 50) div 366 = - 1" using assms(1,2) by linarith
  have row: "(my - 100) div 200 \<in> {1, 2, 3}" using assms(3,4) by (simp; linarith)
  show ?thesis
    unfolding cell_width_value Let_def
    using row assms(3,4) by (auto simp: handle_mouse col)
qed

theorem left_margin_hit_witness:
  "selected_district (viz (handle_event start_state (MOUSEBUTTONDOWN 0 300))) = Some ''Southern''"
proof -
  have "(- 316 :: int) \<le> 0" "(0::int) < 50" "(300::int) \<le> 300" "(300::int) \<le> 700" by simp_all
  from left_margin_hit[OF this, of start_state] show ?thesis
    by (simp add: DISTRICTS_def)
qed

text \<open>
  A press further left is not covered: at \<open>(mx, my) = (-2000, 300)\<close> the column is \<open>-6\<close>,
  the index is \<open>-3\<close>, and the press leaves the state unchanged.
\<close>

theorem far_left_press_selects_nothing:
  "(- 2000 - 50) div ((WIDTH - 2 * 50) div 3) = - 6
   \<and> handle_event start_state (MOUSEBUTTONDOWN (- 2000) 300) = start_state
   \<and> selected_district (viz (handle_event start_state (MOUSEBUTTONDOWN (- 2000) 300))) = None"
  unfolding cell_width_value
  by (simp add: handle_mouse start_state_props(6))

text \<open>
  C7.  With \<open>x1\<close>, \<open>y1\<close> the position after the displacement of a move step,
  \<open>Particle.move\<close> leaves \<open>x = WIDTH\<close> when \<open>x1 < 0\<close>, \<open>x = 0\<close> when \<open>x1 > WIDTH\<close> and
  \<open>x = x1\<close> otherwise, and likewise \<open>y\<close> with \<open>HEIGHT\<close>.  In particular \<open>x1 = WIDTH + 1\<close>
  becomes 0, \<open>x1 = -1\<close> becomes \<open>WIDTH\<close>, and \<open>x1 = 0\<close> and \<open>x1 = WIDTH\<close> stay.
\<close>

theorem move_wraps_around:
  "(let x1 = pos_x p + cos (angle p + dtheta) * speed p;
        y1 = pos_y p + sin (angle p + dtheta) * speed p
    in pos_x (move p dtheta ticks)
         = (if x1 < 0 then of_int WIDTH else if x1 > of_int WIDTH then 0 else x1)
       \<and> pos_y (move p dtheta ticks)
         = (if y1 < 0 then of_int HEIGHT else if y1 > of_int HEIGHT then 0 else y1)
       \<and> (x1 = of_int WIDTH + 1 \<longrightarrow> pos_x (move p dtheta ticks) = 0)
       \<and> (x1 = - 1 \<longrightarrow> pos_x (move p dtheta ticks) = of_int WIDTH)
       \<and> (x1 = 0 \<longrightarrow> pos_x (move p dtheta ticks) = 0)
       \<and> (x1 = of_int WIDTH \<longrightarrow> pos_x (move p dtheta ticks) = of_int WIDTH)
       \<and> (y1 = of_int HEIGHT + 1 \<longrightarrow> pos_y (move p dtheta ticks) = 0)
       \<and> (y1 = - 1 \<longrightarrow> pos_y (move p dtheta ticks) = of_int HEIGHT)
       \<and> (y1 = 0 \<longrightarrow> pos_y (move p dtheta ticks) = 0)
       \<and> (y1 = of_int HEIGHT \<longrightarrow> pos_y (move p dtheta ticks) = of_int HEIGHT))"
  by (simp add: move_def Let_def WIDTH_def HEIGHT_def)

theorem move_wraps_around_witness:
  "pos_x (move right_edge_particle 0 0) = 0
   \<and> pos_x (move left_edge_particle 0 0) = 1200
   \<and> pos_y (move right_edge_particle 0 0) = 400"
  using move_wraps_around[of right_edge_particle 0 0] move_wraps_around[of left_edge_particle 0 0]
  by (simp add: right_edge_particle_def left_edge_particle_def WIDTH_def HEIGHT_def Let_def)

subsection \<open>Settling of the year animation\<close>

lemma update_particles_year:
  assumes "viz_inv self"
  shows "\<exists>v. update_particles self dtheta ticks = Inr v \<and> viz_inv v
           \<and> target_year v = target_year self \<and> year v = next_year self
           \<and> aqi_data v = aqi_data self"
  using update_particles_ok[OF assms, of dtheta ticks] by auto

lemma next_year_far:
  assumes "year_transition_speed self = 0.05" "1 / 100 < \<bar>year self - of_int (target_year self)\<bar>"
  shows "next_year self = year self + (of_int (target_year self) - year self) / 20"
  using assms by (simp add: next_year_def)

lemma next_year_near:
  assumes "\<bar>year self - of_int (target_year self)\<bar> \<le> 1 / 100"
  shows "next_year self = of_int (target_year self)"
  using assms by (simp add: next_year_def)

lemma settle_closed_form:
  fixes D :: real
  assumes inv: "viz_inv self"
    and D: "D = of_int (target_year self) - year self"
    and far: "1 / 100 < \<bar>D\<bar> * (19 / 20) ^ M"
  shows "n \<le> Suc M \<Longrightarrow>
         \<exists>v. run_ticks n self inp = Inr v \<and> viz_inv v \<and> target_year v = target_year self
              \<and> year v = of_int (target_year self) - D * (19 / 20) ^ n
              \<and> aqi_data v = aqi_data self"
proof (induction n)
  case 0
  show ?case using inv D by simp
next
  case (Suc n)
  then have nM: "n \<le> M" by simp
  from Suc.IH nM obtain v where v: "run_ticks n self inp = Inr v" "viz_inv v"
      "target_year v = target_year self"
      "year v = of_int (target_year self) - D * (19 / 20) ^ n"
      "aqi_data v = aqi_data self"
    by auto
  have "(19 / 20 :: real) ^ M \<le> (19 / 20) ^ n"
    using nM by (intro power_decreasing) simp_all
  then have "\<bar>D\<bar> * (19 / 20) ^ M \<le> \<bar>D\<bar> * (19 / 20) ^ n"
    by (intro mult_left_mono) simp_all
  with far have "1 / 100 < \<bar>D\<bar> * (19 / 20) ^ n" by linarith
  moreover have "\<bar>year v - of_int (target_year v)\<bar> = \<bar>D\<bar> * (19 / 20) ^ n"
    by (simp add: v(3,4) abs_mult)
  ultimately have dist: "1 / 100 < \<bar>year v - of_int (target_year v)\<bar>" by simp
  have sp: "year_transition_speed v = 0.05" using v(2) by (simp add: viz_inv_def)
  have ny: "next_year v = of_int (target_year self) - D * (19 / 20) ^ Suc n"
    unfolding next_year_far[OF sp dist] v(3,4) by (simp add: field_simps)
  from update_particles_year[OF v(2), of "fst (inp n)" "snd (inp n)"]
  obtain v' where v': "update_particles v (fst (inp n)) (snd (inp n)) = Inr v'" "viz_inv v'"
      "target_year v' = target_year v" "year v' = next_year v" "aqi_data v' = aqi_data v"
    by blast
  show ?case
    using v v' ny by simp
qed

lemma settle_snap:
  fixes D :: real
  assumes inv: "viz_inv self"
    and D: "D = of_int (target_year self) - year self"
    and far: "1 / 100 < \<bar>D\<bar> * (19 / 20) ^ M"
    and near: "\<bar>D\<bar> * (19 / 20) ^ Suc M \<le> 1 / 100"
  shows "Suc (Suc M) \<le> n \<Longrightarrow>
         \<exists>v. run_ticks n self inp = Inr v \<and> viz_inv v \<and> target_year v = target_year self
              \<and> year v = of_int (target_year self) \<and> aqi_data v = aqi_data self"
proof (induction n)
  case 0
  then show ?case by simp
next
  case (Suc n)
  have "\<exists>v. run_ticks n self inp = Inr v \<and> viz_inv v \<and> target_year v = target_year self
             \<and> \<bar>year v - of_int (target_year v)\<bar> \<le> 1 / 100 \<and> aqi_data v = aqi_data self"
  proof (cases "n = Suc M")
    case True
    from settle_closed_form[OF inv D far, of n inp] True
    obtain v where v: "run_ticks n self inp = Inr v" "viz_inv v" "target_year v = target_year self"
        "year v = of_int (target_year self) - D * (19 / 20) ^ Suc M" "aqi_data v = aqi_data self"
      by auto
    have "\<bar>year v - of_int (target_year v)\<bar> = \<bar>D\<bar> * (19 / 20) ^ Suc M"
      unfolding v(3,4) by (simp add: abs_mult)
    with near v show ?thesis by simp
  next
    case False
    then have "Suc (Suc M) \<le> n" using Suc.prems by simp
    from Suc.IH[OF this] show ?thesis by auto
  qed
  then obtain v where v: "run_ticks n self inp = Inr v" "viz_inv v"
      "target_year v = target_year self" "\<bar>year v - of_int (target_year v)\<bar> \<le> 1 / 100"
      "aqi_data v = aqi_data self"
    by blast
  from update_particles_year[OF v(2), of "fst (inp n)" "snd (inp n)"]
  obtain v' where v': "update_particles v (fst (inp n)) (snd (inp n)) = Inr v'" "viz_inv v'"
      "target_year v' = target_year v" "year v' = next_year v" "aqi_data v' = aqi_data v"
    by blast
  show ?case using v v' next_year_near[OF v(4)] by simp
qed

lemma pow_19_20_127: "1 / 100 < 7 * (19 / 20 :: real) ^ 127"
  by (simp add: power_divide)

lemma pow_19_20_128: "7 * (19 / 20 :: real) ^ 128 \<le> 1 / 100"
  by (simp add: power_divide)

subsection \<open>The year settles on the target\<close>

lemma handle_event_year: "year (viz (handle_event s e)) = year (viz s)"
proof (cases e)
  case (KEYDOWN k)
  then show ?thesis by (cases k) simp_all
next
  case (MOUSEBUTTONDOWN mx my)
  then show ?thesis by (simp add: handle_mouse)
qed simp_all

lemma foldl_handle_event_year: "year (viz (foldl handle_event s evs)) = year (viz s)"
  by (induction evs arbitrary: s) (simp_all add: handle_event_year)

lemma right_presses:
  "target_year (viz s) \<le> 2023 \<Longrightarrow>
   target_year (viz (foldl handle_event s (replicate k (KEYDOWN K_RIGHT))))
     = min 2023 (target_year (viz s) + int k)"
proof (induction k arbitrary: s)
  case 0
  then show ?case by simp
next
  case (Suc k)
  have "target_year (viz (handle_event s (KEYDOWN K_RIGHT))) \<le> 2023" by simp
  from Suc.IH[OF this] show ?case using Suc.prems by simp
qed

lemma viz_target_2000_props:
  "viz_inv viz_target_2000" "year viz_target_2000 = 1993" "target_year viz_target_2000 = 2000"
proof -
  have "state_inv (foldl handle_event start_state (replicate 7 (KEYDOWN K_RIGHT)))"
    using start_state_props(1) by (rule foldl_handle_event_inv)
  then show "viz_inv viz_target_2000" unfolding viz_target_2000_def state_inv_def by blast
  show "year viz_target_2000 = 1993"
    unfolding viz_target_2000_def foldl_handle_event_year by (rule start_state_props(4))
  have "target_year (viz start_state) \<le> 2023" by (simp add: start_state_props(5))
  from right_presses[OF this, of 7] show "target_year viz_target_2000 = 2000"
    unfolding viz_target_2000_def by (simp add: start_state_props(5))
qed

text \<open>
  C1.  One tick of \<open>update_particles\<close> on an object satisfying the invariant replaces the year
  by \<open>year + (target_year - year) * 0.05\<close> when \<open>|year - target_year| > 0.01\<close> and by
  \<open>target_year\<close> otherwise, and leaves \<open>target_year\<close> unchanged.  Starting from year 1993
  with target 2000, the year after \<open>n\<close> ticks is \<open>2000 - 7 * 0.95 ^ n\<close> for \<open>n \<le> 128\<close> and 2000
  afterwards: the distance to 2000 strictly decreases in each of the first 129 ticks, it
  exceeds 0.01 before tick 128, it is within 0.01 (and not 0) after 128 ticks, and after the
  following tick, and from then on, the year is exactly 2000.
\<close>

theorem animation_settles:
  assumes "viz_inv self" "year self = 1993" "target_year self = 2000"
  shows "(\<forall>v dtheta ticks. viz_inv v \<longrightarrow>
            (\<exists>v'. update_particles v dtheta ticks = Inr v' \<and> target_year v' = target_year v
               \<and> year v' = (if \<bar>year v - of_int (target_year v)\<bar> > 0.01
                             then year v + (of_int (target_year v) - year v) * 0.05
                             else of_int (target_year v))))
       \<and> (\<forall>n. \<exists>v. run_ticks n self inp = Inr v \<and> target_year v = 2000
               \<and> year v = (if n \<le> 128 then 2000 - 7 * (19 / 20) ^ n else 2000))
       \<and> (\<forall>n \<le> 128. \<exists>v v'. run_ticks n self inp = Inr v \<and> run_ticks (Suc n) self inp = Inr v'
               \<and> \<bar>year v' - 2000\<bar> < \<bar>year v - 2000\<bar>)
       \<and> (\<forall>n < 128. \<exists>v. run_ticks n self inp = Inr v \<and> \<bar>year v - 2000\<bar> > 0.01)
       \<and> (\<exists>v. run_ticks 128 self inp = Inr v \<and> \<bar>year v - 2000\<bar> \<le> 0.01 \<and> year v \<noteq> 2000)
       \<and> (\<forall>n \<ge> 129. \<exists>v. run_ticks n self inp = Inr v \<and> year v = 2000)"
proof -
  have D: "(7::real) = of_int (target_year self) - year self" using assms(2,3) by simp
  have far: "1 / 100 < \<bar>7::real\<bar> * (19 / 20) ^ 127" using pow_19_20_127 by simp
  have near: "\<bar>7::real\<bar> * (19 / 20) ^ Suc 127 \<le> 1 / 100" using pow_19_20_128 by simp
  have B: "\<exists>v. run_ticks n self inp = Inr v \<and> target_year v = 2000
               \<and> year v = (if n \<le> 128 then 2000 - 7 * (19 / 20) ^ n else 2000)" for n
  proof (cases "n \<le> 128")
    case True
    then have "n \<le> Suc 127" by simp
    from settle_closed_form[OF assms(1) D far this, of inp] True show ?thesis
      by (auto simp: assms(3))
  next
    case False
    then have "Suc (Suc 127) \<le> n" by simp
    from settle_snap[OF assms(1) D far near this, of inp] False show ?thesis
      by (auto simp: assms(3))
  qed
  have rule: "\<forall>v dtheta ticks. viz_inv v \<longrightarrow>
            (\<exists>v'. update_particles v dtheta ticks = Inr v' \<and> target_year v' = target_year v
               \<and> year v' = (if \<bar>year v - of_int (target_year v)\<bar> > 0.01
                             then year v + (of_int (target_year v) - year v) * 0.05
                             else of_int (target_year v)))"
  proof (intro allI impI)
    fix v dtheta ticks assume i: "viz_inv v"
    then have sp: "year_transition_speed v = 0.05" by (simp add: viz_inv_def)
    from update_particles_year[OF i, of dtheta ticks]
    show "\<exists>v'. update_particles v dtheta ticks = Inr v' \<and> target_year v' = target_year v
               \<and> year v' = (if \<bar>year v - of_int (target_year v)\<bar> > 0.01
                             then year v + (of_int (target_year v) - year v) * 0.05
                             else of_int (target_year v))"
      by (auto simp: next_year_def sp)
  qed
  have pos: "0 < (19 / 20 :: real) ^ k" for k by simp
  have C: "\<forall>n \<le> 128. \<exists>v v'. run_ticks n self inp = Inr v \<and> run_ticks (Suc n) self inp = Inr v'
               \<and> \<bar>year v' - 2000\<bar> < \<bar>year v - 2000\<bar>"
  proof (intro allI impI)
    fix n :: nat assume n: "n \<le> 128"
    from B[of n] n obtain v where v: "run_ticks n self inp = Inr v"
        "year v = 2000 - 7 * (19 / 20) ^ n" by auto
    from B[of "Suc n"] obtain v' where v': "run_ticks (Suc n) self inp = Inr v'"
        "year v' = (if Suc n \<le> 128 then 2000 - 7 * (19 / 20) ^ Suc n else 2000)" by blast
    have dv: "\<bar>year v - 2000\<bar> = 7 * (19 / 20) ^ n" using pos[of n] by (simp add: v(2))
    have "\<bar>year v' - 2000\<bar> < 7 * (19 / 20) ^ n"
    proof (cases "Suc n \<le> 128")
      case True
      then have "\<bar>year v' - 2000\<bar> = 7 * (19 / 20) ^ n * (19 / 20)" using pos[of n] by (simp add: v'(2))
      also have "\<dots> < 7 * (19 / 20) ^ n" using pos[of n] by simp
      finally show ?thesis .
    next
      case False
      then show ?thesis using pos[of n] by (simp add: v'(2))
    qed
    with dv v(1) v'(1) show "\<exists>v v'. run_ticks n self inp = Inr v \<and> run_ticks (Suc n) self inp = Inr v'
               \<and> \<bar>year v' - 2000\<bar> < \<bar>year v - 2000\<bar>"
      by auto
  qed
  have Dd: "\<forall>n < 128. \<exists>v. run_ticks n self inp = Inr v \<and> \<bar>year v - 2000\<bar> > 0.01"
  proof (intro allI impI)
    fix n :: nat assume n: "n < 128"
    from B[of n] n obtain v where v: "run_ticks n self inp = Inr v"
        "year v = 2000 - 7 * (19 / 20) ^ n" by auto
    have "(19 / 20 :: real) ^ 127 \<le> (19 / 20) ^ n"
      using n by (intro power_decreasing) simp_all
    with pow_19_20_127 have "1 / 100 < 7 * (19 / 20 :: real) ^ n" by linarith
    moreover have "\<bar>year v - 2000\<bar> = 7 * (19 / 20) ^ n" using pos[of n] by (simp add: v(2))
    ultimately show "\<exists>v. run_ticks n self inp = Inr v \<and> \<bar>year v - 2000\<bar> > 0.01"
      using v(1) by simp
  qed
  have E: "\<exists>v. run_ticks 128 self inp = Inr v \<and> \<bar>year v - 2000\<bar> \<le> 0.01 \<and> year v \<noteq> 2000"
  proof -
    from B[of 128] obtain v where v: "run_ticks 128 self inp = Inr v"
        "year v = 2000 - 7 * (19 / 20) ^ 128" by auto
    have "\<bar>year v - 2000\<bar> = 7 * (19 / 20) ^ 128" using pos[of 128] unfolding v(2) by simp
    moreover have "year v \<noteq> 2000" using pos[of 128] unfolding v(2) by simp
    ultimately show ?thesis using v(1) pow_19_20_128 by simp
  qed
  have F: "\<forall>n \<ge> 129. \<exists>v. run_ticks n self inp = Inr v \<and> year v = 2000"
  proof (intro allI impI)
    fix n :: nat assume "129 \<le> n"
    with B[of n] show "\<exists>v. run_ticks n self inp = Inr v \<and> year v = 2000" by auto
  qed
  have B': "\<forall>n. \<exists>v. run_ticks n self inp = Inr v \<and> target_year v = 2000
               \<and> year v = (if n \<le> 128 then 2000 - 7 * (19 / 20) ^ n else 2000)"
    using B by (rule allI)
  from rule B' C Dd E F show ?thesis by (intro conjI)
qed

theorem animation_settles_witness:
  "(\<exists>v. run_ticks 128 viz_target_2000 idle_ticks = Inr v
         \<and> \<bar>year v - 2000\<bar> \<le> 0.01 \<and> year v \<noteq> 2000)
   \<and> (\<exists>v. run_ticks 129 viz_target_2000 idle_ticks = Inr v \<and> year v = 2000)"
proof -
  note t = animation_settles[OF viz_target_2000_props, of idle_ticks]
  from t have a: "\<exists>v. run_ticks 128 viz_target_2000 idle_ticks = Inr v
         \<and> \<bar>year v - 2000\<bar> \<le> 0.01 \<and> year v \<noteq> 2000"
    by (elim conjE)
  from t have "\<forall>n \<ge> 129. \<exists>v. run_ticks n viz_target_2000 idle_ticks = Inr v \<and> year v = 2000"
    by (elim conjE)
  then have "\<exists>v. run_ticks 129 viz_target_2000 idle_ticks = Inr v \<and> year v = 2000"
    by (rule allE[of _ 129]) simp
  with a show ?thesis by (rule conjI)
qed

subsection \<open>Particle properties across ticks\<close>

lemma move_fields:
  "color (move p d t) = color p" "base_size (move p d t) = base_size p"
  "speed (move p d t) = speed p" "size_attr (move p d t) = size_attr p"
  "angle (move p d t) = angle p + d" "pos_z (move p d t) = 50 * sin (t * 0.001 + (angle p + d))"
  by (simp_all add: move_def Let_def)

lemma update_particles_each:
  assumes "viz_inv self"
  shows "\<exists>v a. update_particles self dtheta ticks = Inr v \<and> viz_inv v
           \<and> update_particles_aqi (aqi_data self) (next_year self) = Inr a
           \<and> year v = next_year self \<and> target_year v = target_year self
           \<and> aqi_data v = aqi_data self
           \<and> length (particles v) = length (particles self)
           \<and> (\<forall>i < length (particles self).
                 particles v ! i
                   = move ((particles self ! i)\<lparr>color := fst (get_particle_properties a),
                              size_attr := Some (fst (snd (get_particle_properties a))),
                              speed := snd (snd (get_particle_properties a))\<rparr>)
                          (dtheta i) (ticks i))"
proof -
  from update_particles_ok[OF assms, of dtheta ticks]
  obtain v a where v: "update_particles self dtheta ticks = Inr v"
    and a: "update_particles_aqi (aqi_data self) (next_year self) = Inr a"
    and eq: "v = self\<lparr>year := next_year self,
                      particles :=
                        map (\<lambda>(i, p). move (p\<lparr>color := fst (get_particle_properties a),
                                                size_attr := Some (fst (snd (get_particle_properties a))),
                                                speed := snd (snd (get_particle_properties a))\<rparr>)
                                         (dtheta i) (ticks i))
                            (enumerate 0 (particles self))\<rparr>"
    and iv: "viz_inv v"
    by blast
  have "length (particles v) = length (particles self)" by (simp add: eq)
  moreover have "\<forall>i < length (particles self).
                 particles v ! i
                   = move ((particles self ! i)\<lparr>color := fst (get_particle_properties a),
                              size_attr := Some (fst (snd (get_particle_properties a))),
                              speed := snd (snd (get_particle_properties a))\<rparr>)
                          (dtheta i) (ticks i)"
    by (simp add: eq nth_enumerate_eq)
  moreover have "year v = next_year self" "target_year v = target_year self"
    "aqi_data v = aqi_data self" by (simp_all add: eq)
  ultimately show ?thesis using v a iv by blast
qed

text \<open>No tick changes \<open>base_size\<close>; idle ticks leave the heading as it is.\<close>

lemma run_ticks_base_size:
  assumes "viz_inv self"
  shows "\<exists>v. run_ticks n self inp = Inr v \<and> viz_inv v
           \<and> length (particles v) = length (particles self)
           \<and> (\<forall>i < length (particles self).
                 base_size (particles v ! i) = base_size (particles self ! i)
                 \<and> angle (particles v ! i)
                     = angle (particles self ! i) + (\<Sum>k < n. fst (inp k) i))"
proof (induction n)
  case 0
  show ?case using assms by simp
next
  case (Suc n)
  then obtain v where v: "run_ticks n self inp = Inr v" "viz_inv v"
      "length (particles v) = length (particles self)"
      "\<forall>i < length (particles self).
                 base_size (particles v ! i) = base_size (particles self ! i)
                 \<and> angle (particles v ! i)
                     = angle (particles self ! i) + (\<Sum>k < n. fst (inp k) i)"
    by blast
  from update_particles_each[OF v(2), of "fst (inp n)" "snd (inp n)"]
  obtain v' a where v': "update_particles v (fst (inp n)) (snd (inp n)) = Inr v'" "viz_inv v'"
      "length (particles v') = length (particles v)"
      "\<forall>i < length (particles v).
                 particles v' ! i
                   = move ((particles v ! i)\<lparr>color := fst (get_particle_properties a),
                              size_attr := Some (fst (snd (get_particle_properties a))),
                              speed := snd (snd (get_particle_properties a))\<rparr>)
                          (fst (inp n) i) (snd (inp n) i)"
    by blast
  have "\<forall>i < length (particles self).
                 base_size (particles v' ! i) = base_size (particles self ! i)
                 \<and> angle (particles v' ! i)
                     = angle (particles self ! i) + (\<Sum>k < Suc n. fst (inp k) i)"
    using v(3,4) v'(4) by (simp add: move_fields)
  then show ?case using v(1,3) v'(1,2,3) by simp
qed

lemma handle_event_data:
  "particles (viz (handle_event s e)) = particles (viz s)"
  "aqi_data (viz (handle_event s e)) = aqi_data (viz s)"
proof -
  show "particles (viz (handle_event s e)) = particles (viz s)"
  proof (cases e)
    case (KEYDOWN k)
    then show ?thesis by (cases k) simp_all
  next
    case (MOUSEBUTTONDOWN mx my)
    then show ?thesis by (simp add: handle_mouse)
  qed simp_all
  show "aqi_data (viz (handle_event s e)) = aqi_data (viz s)"
  proof (cases e)
    case (KEYDOWN k)
    then show ?thesis by (cases k) simp_all
  next
    case (MOUSEBUTTONDOWN mx my)
    then show ?thesis by (simp add: handle_mouse)
  qed simp_all
qed

lemma foldl_handle_event_data:
  "particles (viz (foldl handle_event s evs)) = particles (viz s)"
  "aqi_data (viz (foldl handle_event s evs)) = aqi_data (viz s)"
  by (induction evs arbitrary: s) (simp_all add: handle_event_data)

lemma particles_loop_angle_zero:
  assumes "\<forall>p \<in> set ps. angle p = 0"
  shows "\<forall>p \<in> set (fst (particles_loop n c sz sp ps (\<lambda>i. 0))). angle p = 0"
  using assms
proof (induction n arbitrary: ps)
  case 0
  then show ?case by simp
next
  case (Suc n)
  show ?case
    unfolding particles_loop_Suc
    by (rule Suc.IH) (use Suc.prems in simp)
qed

lemma AirQualityViz_init_particles:
  assumes "AirQualityViz_init np_g py_g = Inr (self, g, pg)"
    and props: "get_particle_properties (np_mean (clipped_row 1993 np_g)) = (c, sz, sp)"
  shows "particles self = fst (particles_loop 200 c sz sp [] py_g)"
proof -
  define data where "data = fst (generate_historical_data np_g)"
  define g1 where "g1 = (\<lambda>i. np_g (i + 372))"
  have gh: "generate_historical_data np_g = (data, historical_events_table, g1)"
    using generate_historical_data_events[of np_g] generate_historical_data_rng[of np_g]
    by (simp add: data_def g1_def prod_eq_iff)
  from generate_district_data_ok[of g1]
  obtain dd where gd: "generate_district_data g1 = Inr (dd, historical_events_table, \<lambda>i. g1 (i + 651))"
    by blast
  have d1993: "data 1993 = Some (clipped_row 1993 np_g)"
    by (simp add: data_def generate_historical_data_at)
  have lk: "lookup_year data 1993 = Inr (clipped_row 1993 np_g)"
    using d1993 by (rule lookup_year_1993)
  show ?thesis
    using assms(1)
    by (auto simp add: AirQualityViz_init_def gh gd initialize_particles_def lk props split_def)
qed

lemma np_mean_base_1993: "np_mean (base_pattern 1993) = 970 / 12"
  by (simp add: base_pattern_def np_mean_def)

lemma np_mean_base_2023: "np_mean (base_pattern 2023) = 370 / 12"
  by (simp add: base_pattern_def np_mean_def)

lemma start_state_particles:
  "particles (viz start_state) = fst (particles_loop 200 particle_moderate 4 1.5 [] (const_noise 0))"
proof -
  have props: "get_particle_properties (np_mean (clipped_row 1993 (const_noise 0)))
                 = (particle_moderate, 4, 1.5)"
    by (simp add: const_noise_def clipped_row_zero np_mean_base_1993 get_particle_properties_def)
  from main_init_ok[of "const_noise 0" "const_noise 0"]
  obtain s g pg where i: "main_init (const_noise 0) (const_noise 0) = Inr (s, g, pg)" by blast
  then obtain self where a: "AirQualityViz_init (const_noise 0) (const_noise 0) = Inr (self, g, pg)"
    and s: "s = \<lparr>viz = self, running = True, frame_count = 0\<rparr>"
    by (auto simp: main_init_def split: sum.splits)
  have "viz start_state = viz s" by (simp add: start_state_def i)
  also have "\<dots> = self" by (simp add: s)
  finally show ?thesis using AirQualityViz_init_particles[OF a props] by simp
qed

lemma viz_target_2023_props:
  "viz_inv viz_target_2023" "year viz_target_2023 = 1993" "target_year viz_target_2023 = 2023"
  "aqi_data viz_target_2023 = fst (generate_historical_data (const_noise 0))"
  "length (particles viz_target_2023) = 200"
  "\<forall>i < 200. base_size (particles viz_target_2023 ! i) = 4 \<and> angle (particles viz_target_2023 ! i) = 0"
proof -
  have "state_inv (foldl handle_event start_state (replicate 30 (KEYDOWN K_RIGHT)))"
    using start_state_props(1) by (rule foldl_handle_event_inv)
  then show "viz_inv viz_target_2023" unfolding viz_target_2023_def state_inv_def by blast
  show "year viz_target_2023 = 1993"
    unfolding viz_target_2023_def foldl_handle_event_year by (rule start_state_props(4))
  have "target_year (viz start_state) \<le> 2023" by (simp add: start_state_props(5))
  from right_presses[OF this, of 30] show "target_year viz_target_2023 = 2023"
    unfolding viz_target_2023_def by (simp add: start_state_props(5))
  show "aqi_data viz_target_2023 = fst (generate_historical_data (const_noise 0))"
    unfolding viz_target_2023_def foldl_handle_event_data by (rule start_state_props(7))
  have ps: "particles viz_target_2023
              = fst (particles_loop 200 particle_moderate 4 1.5 [] (const_noise 0))"
    unfolding viz_target_2023_def foldl_handle_event_data by (rule start_state_particles)
  show len: "length (particles viz_target_2023) = 200"
    unfolding ps by (simp add: particles_loop_length)
  have b: "\<forall>p \<in> set (particles viz_target_2023). base_size p = 4"
    unfolding ps using particles_loop_props[of "[]" particle_moderate 4 "1.5" 200 "const_noise 0"]
    by simp
  have an: "\<forall>p \<in> set (particles viz_target_2023). angle p = 0"
    unfolding ps const_noise_def by (rule particles_loop_angle_zero) simp
  show "\<forall>i < 200. base_size (particles viz_target_2023 ! i) = 4 \<and> angle (particles viz_target_2023 ! i) = 0"
    using b an len by (metis nth_mem)
qed

lemma pow_19_20_156: "1 / 100 < 30 * (19 / 20 :: real) ^ 156"
  by (simp add: power_divide)

lemma pow_19_20_157: "30 * (19 / 20 :: real) ^ 157 \<le> 1 / 100"
  by (simp add: power_divide)

subsection \<open>Uniform particle properties\<close>

lemma get_particle_properties_good: "get_particle_properties (370 / 12) = (particle_good, 3, 1)"
  by (simp add: get_particle_properties_def)

lemma aqi_2023_zero_noise:
  "update_particles_aqi (fst (generate_historical_data (const_noise 0))) 2023 = Inr (370 / 12)"
proof -
  have "py_int 2023 = 2023" by (simp add: py_int_def)
  then show ?thesis
    by (simp add: update_particles_aqi_def Let_def generate_historical_data_at const_noise_def
          clipped_row_zero np_mean_base_2023)
qed

lemma update_particles_uniform:
  assumes "viz_inv self"
  shows "\<exists>v a. update_particles self dtheta ticks = Inr v
           \<and> update_particles_aqi (aqi_data self) (next_year self) = Inr a
           \<and> list_all (\<lambda>p. color p = fst (get_particle_properties a)
                             \<and> size_attr p = Some (fst (snd (get_particle_properties a)))
                             \<and> speed p = snd (snd (get_particle_properties a)))
                        (particles v)
           \<and> map base_size (particles v) = map base_size (particles self)"
proof -
  from update_particles_each[OF assms, of dtheta ticks]
  obtain v a where v: "update_particles self dtheta ticks = Inr v"
      "update_particles_aqi (aqi_data self) (next_year self) = Inr a"
      "length (particles v) = length (particles self)"
      "\<forall>i < length (particles self).
                 particles v ! i
                   = move ((particles self ! i)\<lparr>color := fst (get_particle_properties a),
                              size_attr := Some (fst (snd (get_particle_properties a))),
                              speed := snd (snd (get_particle_properties a))\<rparr>)
                          (dtheta i) (ticks i)"
    by blast
  have "list_all (\<lambda>p. color p = fst (get_particle_properties a)
                             \<and> size_attr p = Some (fst (snd (get_particle_properties a)))
                             \<and> speed p = snd (snd (get_particle_properties a)))
                        (particles v)"
    unfolding list_all_length using v(3,4) by (simp add: move_fields)
  moreover have "map base_size (particles v) = map base_size (particles self)"
    by (rule nth_equalityI) (use v(3,4) in \<open>simp_all add: move_fields\<close>)
  ultimately show ?thesis using v(1,2) by blast
qed

text \<open>
  C8.  Every tick writes one (colour, size, speed) triple, derived from the interpolated
  overall AQI by the threshold function, to the \<open>color\<close>, \<open>size\<close> and \<open>speed\<close> attributes of
  every particle (lemma \<open>update_particles_uniform\<close>).  The size is written to the attribute
  \<open>size\<close>, not to \<open>base_size\<close>, which \<open>Particle.draw\<close> reads: \<open>base_size\<close> keeps the value of
  the AQI at start-up.  With all random values 0, 30 right-key presses at the start and 158
  ticks, the year is 2023, the AQI is below 50, every particle has the good colour, speed 1
  and \<open>size = 3\<close>, but \<open>base_size = 4\<close>, and the radius drawn at depth 0 is
  \<open>int(4 * 0.75) = 3\<close> where a base size of 3 would give \<open>int(3 * 0.75) = 2\<close>.
\<close>

theorem size_update_misses_base_size:
  "\<exists>v. run_ticks 158 viz_target_2023 idle_ticks = Inr v \<and> year v = 2023
       \<and> length (particles v) = 200
       \<and> list_all (\<lambda>p. color p = particle_good \<and> speed p = 1 \<and> size_attr p = Some 3
                         \<and> base_size p = 4 \<and> draw_size p = 3)
                  (particles v)"
proof -
  note P = viz_target_2023_props
  have D: "(30::real) = of_int (target_year viz_target_2023) - year viz_target_2023"
    by (simp add: P(2,3))
  have far: "1 / 100 < \<bar>30::real\<bar> * (19 / 20) ^ 156" using pow_19_20_156 by simp
  have "(157::nat) \<le> Suc 156" by simp
  from settle_closed_form[OF P(1) D far this, of idle_ticks]
  obtain v where v: "run_ticks 157 viz_target_2023 idle_ticks = Inr v" "viz_inv v"
      "target_year v = 2023" "year v = 2023 - 30 * (19 / 20) ^ 157"
      "aqi_data v = fst (generate_historical_data (const_noise 0))"
    by (auto simp: P(3,4))
  from run_ticks_base_size[OF P(1), of 157 idle_ticks] v(1)
  have len: "length (particles v) = 200"
    and each: "\<forall>i < 200. base_size (particles v ! i) = 4 \<and> angle (particles v ! i) = 0"
    using P(5,6) by (auto simp: idle_ticks_def)
  have pos: "0 < (19 / 20 :: real) ^ 157" by simp
  have "\<bar>year v - of_int (target_year v)\<bar> = 30 * (19 / 20) ^ 157"
    unfolding v(3,4) using pos by simp
  with pow_19_20_157 have "\<bar>year v - of_int (target_year v)\<bar> \<le> 1 / 100" by simp
  from next_year_near[OF this] have ny: "next_year v = 2023" by (simp add: v(3))
  from update_particles_each[OF v(2), of "fst (idle_ticks 157)" "snd (idle_ticks 157)"]
  obtain v' a where v': "update_particles v (fst (idle_ticks 157)) (snd (idle_ticks 157)) = Inr v'"
      "update_particles_aqi (aqi_data v) (next_year v) = Inr a"
      "year v' = next_year v" "length (particles v') = length (particles v)"
      "\<forall>i < length (particles v).
                 particles v' ! i
                   = move ((particles v ! i)\<lparr>color := fst (get_particle_properties a),
                              size_attr := Some (fst (snd (get_particle_properties a))),
                              speed := snd (snd (get_particle_properties a))\<rparr>)
                          (fst (idle_ticks 157) i) (snd (idle_ticks 157) i)"
    by blast
  have a: "a = 370 / 12" using v'(2) unfolding v(5) ny aqi_2023_zero_noise by simp
  have g: "get_particle_properties a = (particle_good, 3, 1)"
    unfolding a by (rule get_particle_properties_good)
  have run: "run_ticks 158 viz_target_2023 idle_ticks = Inr v'"
  proof -
    have "run_ticks (Suc 157) viz_target_2023 idle_ticks = Inr v'"
      unfolding run_ticks.simps(2) v(1) using v'(1) by simp
    then show ?thesis by simp
  qed
  have part: "color (particles v' ! i) = particle_good \<and> speed (particles v' ! i) = 1
              \<and> size_attr (particles v' ! i) = Some 3 \<and> base_size (particles v' ! i) = 4
              \<and> draw_size (particles v' ! i) = 3" if i: "i < 200" for i
  proof -
    have eq: "particles v' ! i
                = move ((particles v ! i)\<lparr>color := particle_good, size_attr := Some 3, speed := 1\<rparr>) 0 0"
      using v'(5) i len by (simp add: g idle_ticks_def)
    have bs: "base_size (particles v ! i) = 4" "angle (particles v ! i) = 0"
      using each i by simp_all
    have z: "pos_z (particles v' ! i) = 0" unfolding eq move_fields by (simp add: bs)
    have b: "base_size (particles v' ! i) = 4" unfolding eq move_fields by (simp add: bs)
    have "draw_size (particles v' ! i) = 3"
      by (simp add: draw_size_def z b py_int_def Let_def)
    moreover have "color (particles v' ! i) = particle_good" "speed (particles v' ! i) = 1"
      "size_attr (particles v' ! i) = Some 3"
      unfolding eq move_fields by simp_all
    ultimately show ?thesis using b by simp
  qed
  have len': "length (particles v') = 200" using v'(4) len by simp
  have all: "list_all (\<lambda>p. color p = particle_good \<and> speed p = 1 \<and> size_attr p = Some 3
                         \<and> base_size p = 4 \<and> draw_size p = 3)
                  (particles v')"
    unfolding list_all_length len' using part by blast
  have y: "year v' = 2023" using v'(3) ny by simp
  show ?thesis
    by (rule exI[of _ v']) (intro conjI run y len' all)
qed

subsection \<open>Target year and the automatic advance\<close>

lemma handle_event_quiet:
  "e \<noteq> KEYDOWN K_SPACE \<Longrightarrow> frame_count (handle_event s e) = frame_count s"
  "e \<noteq> QUIT \<Longrightarrow> running (handle_event s e) = running s"
  "\<not> is_key e \<Longrightarrow> target_year (viz (handle_event s e)) = target_year (viz s)"
proof -
  show "e \<noteq> KEYDOWN K_SPACE \<Longrightarrow> frame_count (handle_event s e) = frame_count s"
  proof (cases e)
    case (KEYDOWN k)
    assume "e \<noteq> KEYDOWN K_SPACE"
    with KEYDOWN show ?thesis by (cases k) simp_all
  next
    case (MOUSEBUTTONDOWN mx my)
    then show ?thesis by (simp add: handle_mouse)
  qed simp_all
  show "e \<noteq> QUIT \<Longrightarrow> running (handle_event s e) = running s"
  proof (cases e)
    case (KEYDOWN k)
    then show ?thesis by (cases k) simp_all
  next
    case (MOUSEBUTTONDOWN mx my)
    then show ?thesis by (simp add: handle_mouse)
  qed simp_all
  show "\<not> is_key e \<Longrightarrow> target_year (viz (handle_event s e)) = target_year (viz s)"
  proof (cases e)
    case (MOUSEBUTTONDOWN mx my)
    then show ?thesis by (simp add: handle_mouse)
  qed (simp_all add: is_key_def)
qed

lemma foldl_handle_event_quiet:
  "\<forall>e \<in> set evs. e \<noteq> KEYDOWN K_SPACE \<Longrightarrow>
     frame_count (foldl handle_event s evs) = frame_count s"
  "\<forall>e \<in> set evs. e \<noteq> QUIT \<Longrightarrow> running (foldl handle_event s evs) = running s"
  "\<forall>e \<in> set evs. \<not> is_key e \<Longrightarrow>
     target_year (viz (foldl handle_event s evs)) = target_year (viz s)"
  by (induction evs arbitrary: s) (simp_all add: handle_event_quiet)

lemma is_key_space: "\<not> is_key e \<Longrightarrow> e \<noteq> KEYDOWN K_SPACE"
  by (auto simp: is_key_def)

text \<open>One frame without a space press: the counter steps modulo 300.\<close>

lemma frame_no_space:
  assumes inv: "state_inv s" and ns: "\<forall>e \<in> set (in_events inp). e \<noteq> KEYDOWN K_SPACE"
  shows "\<exists>s'. frame s inp = Inr s' \<and> state_inv s'
           \<and> running s' = running (foldl handle_event s (in_events inp))
           \<and> frame_count s' = int (Suc (nat (frame_count s)) mod 300)
           \<and> ((\<forall>e \<in> set (in_events inp). \<not> is_key e) \<longrightarrow>
                target_year (viz s')
                  = (advance ^^ (Suc (nat (frame_count s)) div 300)) (target_year (viz s)))"
proof -
  define s1 where "s1 = foldl handle_event s (in_events inp)"
  have c1: "frame_count s1 = frame_count s"
    unfolding s1_def using ns by (rule foldl_handle_event_quiet(1))
  from inv have c: "0 \<le> frame_count s" "frame_count s < 300" by (simp_all add: state_inv_def)
  from frame_ok[OF inv, of inp]
  obtain s' where s': "frame s inp = Inr s'" "state_inv s'" "running s' = running s1"
      "if frame_count s1 + 1 \<ge> 300
       then target_year (viz s') = advance (target_year (viz s1)) \<and> frame_count s' = 0
       else target_year (viz s') = target_year (viz s1) \<and> frame_count s' = frame_count s1 + 1"
    unfolding Let_def s1_def[symmetric] by blast
  show ?thesis
  proof (cases "frame_count s + 1 \<ge> 300")
    case True
    then have eq: "nat (frame_count s) = 299" using c by linarith
    have "frame_count s' = int (Suc (nat (frame_count s)) mod 300)"
      using s'(4) True c1 by (simp add: eq)
    moreover have "target_year (viz s')
                  = (advance ^^ (Suc (nat (frame_count s)) div 300)) (target_year (viz s))"
      if "\<forall>e \<in> set (in_events inp). \<not> is_key e"
      using s'(4) True c1 foldl_handle_event_quiet(3)[OF that, of s]
      by (simp add: eq s1_def)
    ultimately show ?thesis using s'(1,2,3) unfolding s1_def by blast
  next
    case False
    then have lt: "Suc (nat (frame_count s)) < 300" using c by linarith
    have "frame_count s' = int (Suc (nat (frame_count s)) mod 300)"
      using s'(4) False c1 c lt by simp
    moreover have "target_year (viz s')
                  = (advance ^^ (Suc (nat (frame_count s)) div 300)) (target_year (viz s))"
      if "\<forall>e \<in> set (in_events inp). \<not> is_key e"
      using s'(4) False c1 lt foldl_handle_event_quiet(3)[OF that, of s]
      by (simp add: s1_def)
    ultimately show ?thesis using s'(1,2,3) unfolding s1_def by blast
  qed
qed

lemma div_mod_300:
  fixes a n :: nat
  shows "(a mod 300 + n) mod 300 = (a + n) mod 300"
    and "(a mod 300 + n) div 300 + a div 300 = (a + n) div 300"
proof -
  show "(a mod 300 + n) mod 300 = (a + n) mod 300" by (simp add: mod_add_left_eq)
  have "a = 300 * (a div 300) + a mod 300" by simp
  then have "(a + n) div 300 = (300 * (a div 300) + (a mod 300 + n)) div 300"
    by (simp add: add.assoc)
  also have "\<dots> = a div 300 + (a mod 300 + n) div 300"
    by (rule div_mult_self4) simp
  finally show "(a mod 300 + n) div 300 + a div 300 = (a + n) div 300" by simp
qed

text \<open>Frames without a space press and without a quit: the loop keeps running.\<close>

lemma quiet_run:
  assumes "state_inv s" "running s"
    "\<forall>inp \<in> set inps. \<forall>e \<in> set (in_events inp). e \<noteq> KEYDOWN K_SPACE \<and> e \<noteq> QUIT"
  shows "\<exists>s'. main_loop s inps = Inr s' \<and> state_inv s' \<and> running s'
           \<and> frame_count s' = int ((nat (frame_count s) + length inps) mod 300)
           \<and> ((\<forall>inp \<in> set inps. \<forall>e \<in> set (in_events inp). \<not> is_key e) \<longrightarrow>
                target_year (viz s')
                  = (advance ^^ ((nat (frame_count s) + length inps) div 300)) (target_year (viz s)))"
  using assms
proof (induction inps arbitrary: s)
  case Nil
  then have "0 \<le> frame_count s" "frame_count s < 300" by (simp_all add: state_inv_def)
  then show ?case using Nil by simp
next
  case (Cons inp inps)
  define c where "c = nat (frame_count s)"
  have ns: "\<forall>e \<in> set (in_events inp). e \<noteq> KEYDOWN K_SPACE"
    and nq: "\<forall>e \<in> set (in_events inp). e \<noteq> QUIT"
    using Cons.prems(3) by simp_all
  from frame_no_space[OF Cons.prems(1) ns]
  obtain s1 where s1: "frame s inp = Inr s1" "state_inv s1"
      "running s1 = running (foldl handle_event s (in_events inp))"
      "frame_count s1 = int (Suc c mod 300)"
      "(\<forall>e \<in> set (in_events inp). \<not> is_key e) \<longrightarrow>
                target_year (viz s1) = (advance ^^ (Suc c div 300)) (target_year (viz s))"
    unfolding c_def by blast
  have r1: "running s1"
    using s1(3) foldl_handle_event_quiet(2)[OF nq, of s] Cons.prems(2) by simp
  have rest: "\<forall>inp \<in> set inps. \<forall>e \<in> set (in_events inp). e \<noteq> KEYDOWN K_SPACE \<and> e \<noteq> QUIT"
    using Cons.prems(3) by simp
  from Cons.IH[OF s1(2) r1 rest]
  obtain s' where s': "main_loop s1 inps = Inr s'" "state_inv s'" "running s'"
      "frame_count s' = int ((nat (frame_count s1) + length inps) mod 300)"
      "(\<forall>inp \<in> set inps. \<forall>e \<in> set (in_events inp). \<not> is_key e) \<longrightarrow>
                target_year (viz s')
                  = (advance ^^ ((nat (frame_count s1) + length inps) div 300)) (target_year (viz s1))"
    by blast
  have n1: "nat (frame_count s1) = Suc c mod 300" using s1(4) by simp
  have run: "main_loop s (inp # inps) = Inr s'"
    using Cons.prems(2) s1(1) s'(1) by simp
  have cnt: "frame_count s' = int ((c + length (inp # inps)) mod 300)"
    using s'(4) unfolding n1 div_mod_300(1) by simp
  have tgt: "target_year (viz s')
                  = (advance ^^ ((c + length (inp # inps)) div 300)) (target_year (viz s))"
    if q: "\<forall>i \<in> set (inp # inps). \<forall>e \<in> set (in_events i). \<not> is_key e"
  proof -
    from q s1(5) have a: "target_year (viz s1) = (advance ^^ (Suc c div 300)) (target_year (viz s))"
      by simp
    from q s'(5) have "target_year (viz s')
         = (advance ^^ ((Suc c mod 300 + length inps) div 300)) (target_year (viz s1))"
      unfolding n1 by simp
    also have "\<dots> = (advance ^^ ((Suc c mod 300 + length inps) div 300 + Suc c div 300))
                       (target_year (viz s))"
      unfolding a by (simp add: funpow_add)
    also have "(Suc c mod 300 + length inps) div 300 + Suc c div 300
                 = (c + length (inp # inps)) div 300"
      unfolding div_mod_300(2) by simp
    finally show ?thesis .
  qed
  show ?case
    using run s'(2,3) cnt tgt unfolding c_def by blast
qed

text \<open>The same when only the last frame may hold a quit event.\<close>

lemma quiet_run_last:
  assumes "state_inv s" "running s"
    "\<forall>inp \<in> set inps. \<forall>e \<in> set (in_events inp). e \<noteq> KEYDOWN K_SPACE"
    "\<forall>inp \<in> set (butlast inps). QUIT \<notin> set (in_events inp)"
  shows "\<exists>s'. main_loop s inps = Inr s' \<and> state_inv s'
           \<and> frame_count s' = int ((nat (frame_count s) + length inps) mod 300)
           \<and> ((\<forall>inp \<in> set inps. \<forall>e \<in> set (in_events inp). \<not> is_key e) \<longrightarrow>
                target_year (viz s')
                  = (advance ^^ ((nat (frame_count s) + length inps) div 300)) (target_year (viz s)))"
proof (cases inps rule: rev_cases)
  case Nil
  from assms(1) have "0 \<le> frame_count s" "frame_count s < 300" by (simp_all add: state_inv_def)
  then show ?thesis using Nil assms(1) by simp
next
  case (snoc xs x)
  have qx: "\<forall>inp \<in> set xs. \<forall>e \<in> set (in_events inp). e \<noteq> KEYDOWN K_SPACE \<and> e \<noteq> QUIT"
    using assms(3,4) snoc by auto
  have nsx: "\<forall>e \<in> set (in_events x). e \<noteq> KEYDOWN K_SPACE" using assms(3) snoc by simp
  from quiet_run[OF assms(1,2) qx]
  obtain s1 where s1: "main_loop s xs = Inr s1" "state_inv s1" "running s1"
      "frame_count s1 = int ((nat (frame_count s) + length xs) mod 300)"
      "(\<forall>inp \<in> set xs. \<forall>e \<in> set (in_events inp). \<not> is_key e) \<longrightarrow>
                target_year (viz s1)
                  = (advance ^^ ((nat (frame_count s) + length xs) div 300)) (target_year (viz s))"
    by blast
  define m where "m = nat (frame_count s) + length xs"
  have n1: "nat (frame_count s1) = m mod 300" using s1(4) by (simp add: m_def)
  from frame_no_space[OF s1(2) nsx]
  obtain s' where s': "frame s1 x = Inr s'" "state_inv s'"
      "frame_count s' = int (Suc (m mod 300) mod 300)"
      "(\<forall>e \<in> set (in_events x). \<not> is_key e) \<longrightarrow>
         target_year (viz s') = (advance ^^ (Suc (m mod 300) div 300)) (target_year (viz s1))"
    unfolding n1 by blast
  have run: "main_loop s inps = Inr s'"
    unfolding snoc main_loop_append using s1(1,3) s'(1) by simp
  have e1: "Suc (m mod 300) mod 300 = (nat (frame_count s) + length inps) mod 300"
    unfolding snoc m_def by (simp add: mod_Suc_eq)
  have e2: "Suc (m mod 300) div 300 + m div 300 = (nat (frame_count s) + length inps) div 300"
    using div_mod_300(2)[of m 1] unfolding snoc m_def by simp
  have tgt: "target_year (viz s')
                  = (advance ^^ ((nat (frame_count s) + length inps) div 300)) (target_year (viz s))"
    if q: "\<forall>i \<in> set inps. \<forall>e \<in> set (in_events i). \<not> is_key e"
  proof -
    from q snoc s1(5) have a: "target_year (viz s1) = (advance ^^ (m div 300)) (target_year (viz s))"
      by (simp add: m_def)
    from q snoc s'(4) have "target_year (viz s')
         = (advance ^^ (Suc (m mod 300) div 300)) (target_year (viz s1))" by simp
    also have "\<dots> = (advance ^^ (Suc (m mod 300) div 300 + m div 300)) (target_year (viz s))"
      unfolding a by (simp add: funpow_add)
    finally show ?thesis unfolding e2 .
  qed
  show ?thesis
    using run s'(2) s'(3) tgt unfolding e1 by blast
qed

text \<open>
  C5, in the form that holds of the code.  From a state satisfying the invariant (which
  holds when \<open>main\<close> enters its loop), the loop runs through any sequence of frame inputs
  without an exception and \<open>target_year\<close> is within 1993 and 2023 afterwards.  A right-key
  press sets \<open>target_year\<close> to \<open>min(2023, target_year + 1)\<close>, a left-key press to
  \<open>max(1993, target_year - 1)\<close>, and a space-key press resets the frame counter to 0.  The
  automatic advance fires in the frame in which the counter reaches 300: that frame resets
  the counter and advances \<open>target_year\<close> by 1, from 2023 to 1993; any other frame leaves
  \<open>target_year\<close> as the events set it and counts up.  While the loop runs and space is not
  pressed, the counter after \<open>n\<close> frames from counter \<open>c\<close> is \<open>(c + n) mod 300\<close>, and with no
  key press at all \<open>target_year\<close> has been advanced \<open>(c + n) div 300\<close> times: the advance
  fires every 300 frames.  From \<open>year = target_year = 1993\<close> and counter 0, 300 frames with no
  key press fire it exactly once, in the 300th frame, and leave \<open>target_year = 1994\<close>.
\<close>

theorem target_year_and_advance:
  assumes "state_inv s"
  shows "(\<exists>s'. main_loop s inps = Inr s'
            \<and> 1993 \<le> target_year (viz s') \<and> target_year (viz s') \<le> 2023)
       \<and> target_year (viz (handle_event s (KEYDOWN K_RIGHT))) = min 2023 (target_year (viz s) + 1)
       \<and> target_year (viz (handle_event s (KEYDOWN K_LEFT))) = max 1993 (target_year (viz s) - 1)
       \<and> frame_count (handle_event s (KEYDOWN K_SPACE)) = 0
       \<and> (\<exists>s'. frame s inp = Inr s'
            \<and> (let s1 = foldl handle_event s (in_events inp)
                in if frame_count s1 + 1 \<ge> 300
                   then target_year (viz s')
                          = (if target_year (viz s1) < 2023 then target_year (viz s1) + 1 else 1993)
                        \<and> frame_count s' = 0
                   else target_year (viz s') = target_year (viz s1)
                        \<and> frame_count s' = frame_count s1 + 1))
       \<and> (running s
            \<and> (\<forall>i \<in> set quiet. \<forall>e \<in> set (in_events i). e \<noteq> KEYDOWN K_SPACE)
            \<and> (\<forall>i \<in> set (butlast quiet). QUIT \<notin> set (in_events i)) \<longrightarrow>
            (\<exists>s'. main_loop s quiet = Inr s'
               \<and> frame_count s' = int ((nat (frame_count s) + length quiet) mod 300)
               \<and> ((\<forall>i \<in> set quiet. \<forall>e \<in> set (in_events i). \<not> is_key e) \<longrightarrow>
                    target_year (viz s')
                      = (advance ^^ ((nat (frame_count s) + length quiet) div 300))
                          (target_year (viz s)))))
       \<and> (running s \<and> frame_count s = 0 \<and> year (viz s) = 1993 \<and> target_year (viz s) = 1993
            \<and> length quiet = 300
            \<and> (\<forall>i \<in> set quiet. \<forall>e \<in> set (in_events i). \<not> is_key e)
            \<and> (\<forall>i \<in> set (butlast quiet). QUIT \<notin> set (in_events i)) \<longrightarrow>
            (\<exists>s'. main_loop s quiet = Inr s' \<and> target_year (viz s') = 1994 \<and> frame_count s' = 0)
            \<and> (\<forall>k < 300. \<exists>s'. main_loop s (take k quiet) = Inr s'
                   \<and> target_year (viz s') = 1993 \<and> frame_count s' = int k))"
proof -
  have p1: "\<exists>s'. main_loop s inps = Inr s'
            \<and> 1993 \<le> target_year (viz s') \<and> target_year (viz s') \<le> 2023"
    using main_loop_ok[OF assms, of inps] by (auto simp: state_inv_def viz_inv_def)
  have p2: "target_year (viz (handle_event s (KEYDOWN K_RIGHT))) = min 2023 (target_year (viz s) + 1)"
    by simp
  have p3: "target_year (viz (handle_event s (KEYDOWN K_LEFT))) = max 1993 (target_year (viz s) - 1)"
    by simp
  have p4: "frame_count (handle_event s (KEYDOWN K_SPACE)) = 0" by simp
  have p5: "\<exists>s'. frame s inp = Inr s'
            \<and> (let s1 = foldl handle_event s (in_events inp)
                in if frame_count s1 + 1 \<ge> 300
                   then target_year (viz s')
                          = (if target_year (viz s1) < 2023 then target_year (viz s1) + 1 else 1993)
                        \<and> frame_count s' = 0
                   else target_year (viz s') = target_year (viz s1)
                        \<and> frame_count s' = frame_count s1 + 1)"
    using frame_ok[OF assms, of inp] unfolding advance_def by blast
  have p6: "running s
            \<and> (\<forall>i \<in> set quiet. \<forall>e \<in> set (in_events i). e \<noteq> KEYDOWN K_SPACE)
            \<and> (\<forall>i \<in> set (butlast quiet). QUIT \<notin> set (in_events i)) \<longrightarrow>
            (\<exists>s'. main_loop s quiet = Inr s'
               \<and> frame_count s' = int ((nat (frame_count s) + length quiet) mod 300)
               \<and> ((\<forall>i \<in> set quiet. \<forall>e \<in> set (in_events i). \<not> is_key e) \<longrightarrow>
                    target_year (viz s')
                      = (advance ^^ ((nat (frame_count s) + length quiet) div 300))
                          (target_year (viz s))))"
  proof
    assume h: "running s
            \<and> (\<forall>i \<in> set quiet. \<forall>e \<in> set (in_events i). e \<noteq> KEYDOWN K_SPACE)
            \<and> (\<forall>i \<in> set (butlast quiet). QUIT \<notin> set (in_events i))"
    then have r: "running s"
      and ns: "\<forall>i \<in> set quiet. \<forall>e \<in> set (in_events i). e \<noteq> KEYDOWN K_SPACE"
      and nq: "\<forall>i \<in> set (butlast quiet). QUIT \<notin> set (in_events i)" by blast+
    from quiet_run_last[OF assms r ns nq]
    show "\<exists>s'. main_loop s quiet = Inr s'
               \<and> frame_count s' = int ((nat (frame_count s) + length quiet) mod 300)
               \<and> ((\<forall>i \<in> set quiet. \<forall>e \<in> set (in_events i). \<not> is_key e) \<longrightarrow>
                    target_year (viz s')
                      = (advance ^^ ((nat (frame_count s) + length quiet) div 300))
                          (target_year (viz s)))"
      by blast
  qed
  have p7: "running s \<and> frame_count s = 0 \<and> year (viz s) = 1993 \<and> target_year (viz s) = 1993
            \<and> length quiet = 300
            \<and> (\<forall>i \<in> set quiet. \<forall>e \<in> set (in_events i). \<not> is_key e)
            \<and> (\<forall>i \<in> set (butlast quiet). QUIT \<notin> set (in_events i)) \<longrightarrow>
            (\<exists>s'. main_loop s quiet = Inr s' \<and> target_year (viz s') = 1994 \<and> frame_count s' = 0)
            \<and> (\<forall>k < 300. \<exists>s'. main_loop s (take k quiet) = Inr s'
                   \<and> target_year (viz s') = 1993 \<and> frame_count s' = int k)"
  proof
    assume h: "running s \<and> frame_count s = 0 \<and> year (viz s) = 1993 \<and> target_year (viz s) = 1993
            \<and> length quiet = 300
            \<and> (\<forall>i \<in> set quiet. \<forall>e \<in> set (in_events i). \<not> is_key e)
            \<and> (\<forall>i \<in> set (butlast quiet). QUIT \<notin> set (in_events i))"
    then have r: "running s" and fc: "frame_count s = 0" and t: "target_year (viz s) = 1993"
      and len: "length quiet = 300"
      and nk: "\<forall>i \<in> set quiet. \<forall>e \<in> set (in_events i). \<not> is_key e"
      and nq: "\<forall>i \<in> set (butlast quiet). QUIT \<notin> set (in_events i)" by blast+
    have ns: "\<forall>i \<in> set quiet. \<forall>e \<in> set (in_events i). e \<noteq> KEYDOWN K_SPACE"
      using nk is_key_space by blast
    from quiet_run_last[OF assms r ns nq] nk
    obtain s' where s': "main_loop s quiet = Inr s'"
        "frame_count s' = int ((nat (frame_count s) + length quiet) mod 300)"
        "target_year (viz s')
           = (advance ^^ ((nat (frame_count s) + length quiet) div 300)) (target_year (viz s))"
      by blast
    have "frame_count s' = 0" using s'(2) by (simp add: fc len)
    moreover have "target_year (viz s') = 1994"
      using s'(3) by (simp add: fc len t advance_def)
    ultimately have full: "\<exists>s'. main_loop s quiet = Inr s' \<and> target_year (viz s') = 1994
                              \<and> frame_count s' = 0"
      using s'(1) by blast
    have pre: "\<exists>s'. main_loop s (take k quiet) = Inr s'
                   \<and> target_year (viz s') = 1993 \<and> frame_count s' = int k" if k: "k < 300" for k
    proof -
      have tk: "take k quiet = take k (butlast quiet)" using k len by (simp add: take_butlast)
      have sub: "set (take k quiet) \<subseteq> set (butlast quiet)"
        unfolding tk by (rule set_take_subset)
      have sub2: "set (take k quiet) \<subseteq> set quiet" by (rule set_take_subset)
      have q: "\<forall>inp \<in> set (take k quiet). \<forall>e \<in> set (in_events inp). e \<noteq> KEYDOWN K_SPACE \<and> e \<noteq> QUIT"
        using sub sub2 ns nq by blast
      have nk': "\<forall>inp \<in> set (take k quiet). \<forall>e \<in> set (in_events inp). \<not> is_key e"
        using sub2 nk by blast
      have lk: "length (take k quiet) = k" using k len by simp
      from quiet_run[OF assms r q] nk'
      obtain s' where s': "main_loop s (take k quiet) = Inr s'"
          "frame_count s' = int ((nat (frame_count s) + length (take k quiet)) mod 300)"
          "target_year (viz s')
             = (advance ^^ ((nat (frame_count s) + length (take k quiet)) div 300))
                 (target_year (viz s))"
        by blast
      have "frame_count s' = int k" using s'(2) k unfolding lk by (simp add: fc)
      moreover have "target_year (viz s') = 1993" using s'(3) k unfolding lk by (simp add: fc t)
      ultimately show ?thesis using s'(1) by blast
    qed
    from full pre
    show "(\<exists>s'. main_loop s quiet = Inr s' \<and> target_year (viz s') = 1994 \<and> frame_count s' = 0)
            \<and> (\<forall>k < 300. \<exists>s'. main_loop s (take k quiet) = Inr s'
                   \<and> target_year (viz s') = 1993 \<and> frame_count s' = int k)"
      by blast
  qed
  show ?thesis
    by (intro conjI) (rule p1, rule p2, rule p3, rule p4, rule p5, rule p6, rule p7)
qed

theorem target_year_and_advance_witness:
  "observe (main_loop start_state (replicate 300 click_input)) = Inr (1994, 0)"
proof -
  have nk: "\<forall>i \<in> set (replicate 300 click_input). \<forall>e \<in> set (in_events i). \<not> is_key e"
    by (simp add: click_input_def is_key_def)
  have nq: "\<forall>i \<in> set (butlast (replicate 300 click_input)). QUIT \<notin> set (in_events i)"
  proof
    fix i assume "i \<in> set (butlast (replicate 300 click_input))"
    then have "i \<in> set (replicate 300 click_input)" by (rule in_set_butlastD)
    then show "QUIT \<notin> set (in_events i)" by (simp add: click_input_def)
  qed
  have len: "length (replicate 300 click_input) = 300" by simp
  note t = target_year_and_advance[OF start_state_props(1), of _ _ "replicate 300 click_input"]
  note last = t[THEN conjunct2, THEN conjunct2, THEN conjunct2, THEN conjunct2,
                THEN conjunct2, THEN conjunct2]
  from last start_state_props(2-5) len nk nq
  obtain s' where "main_loop start_state (replicate 300 click_input) = Inr s'"
      "target_year (viz s') = 1994" "frame_count s' = 0"
    by blast
  then show ?thesis by (simp add: observe_def)
qed

text \<open>
  With a space press the advance does not fire every 300 frames: after 299 frames without
  events and a 300th frame in which space is pressed, \<open>target_year\<close> is still 1993 and the
  counter is 1.
\<close>

theorem space_press_postpones_advance:
  "observe (main_loop start_state (replicate 299 idle_input @ [space_input])) = Inr (1993, 1)"
proof -
  have q: "\<forall>inp \<in> set (replicate 299 idle_input).
             \<forall>e \<in> set (in_events inp). e \<noteq> KEYDOWN K_SPACE \<and> e \<noteq> QUIT"
    by (simp add: idle_input_def)
  have nk: "\<forall>inp \<in> set (replicate 299 idle_input). \<forall>e \<in> set (in_events inp). \<not> is_key e"
    by (simp add: idle_input_def)
  from quiet_run[OF start_state_props(1,2) q] nk
  obtain s1 where s1: "main_loop start_state (replicate 299 idle_input) = Inr s1"
      "state_inv s1" "running s1"
      "frame_count s1 = int ((nat (frame_count start_state) + length (replicate 299 idle_input)) mod 300)"
      "target_year (viz s1)
         = (advance ^^ ((nat (frame_count start_state) + length (replicate 299 idle_input)) div 300))
             (target_year (viz start_state))"
    by blast
  have t1: "target_year (viz s1) = 1993"
    using s1(5) by (simp add: start_state_props(3,5))
  from frame_ok[OF s1(2), of space_input]
  obtain s' where s': "frame s1 space_input = Inr s'"
      "target_year (viz s') = target_year (viz s1)" "frame_count s' = 1"
    by (auto simp: Let_def space_input_def)
  have "main_loop start_state (replicate 299 idle_input @ [space_input]) = Inr s'"
    unfolding main_loop_append s1(1) using s1(3) s'(1) by simp
  then show ?thesis using s'(2,3) t1 by (simp add: observe_def)
qed

end
